(* ===== verification/Prelude.thy ===== *)
theory Prelude
  imports Main "HOL-Library.Sublist"
begin

text \<open>
  Shared vocabulary of the transponster development: the Python exceptions that the
  processing thread raises, catches or forwards, the path type used by the file-system
  model, the simp collection the state-update lemmas of the components go into, and a
  few generic list lemmas the component proofs share.
\<close>

named_theorems pt_simps "state-update equations of the processing-thread model"

section \<open>Python exceptions\<close>

text \<open>
  The exceptions that reach the code of \<^verbatim>\<open>processing_thread.py\<close>.
  \<open>ClosedException\<close> is raised by \<^verbatim>\<open>WrappedQueue.get\<close> on a closed, drained queue;
  \<open>FileNotFoundError\<close> and \<open>NotADirectoryError\<close> by \<^verbatim>\<open>shutil.rmtree\<close>;
  \<open>OSError r fn\<close>, known by its \<^verbatim>\<open>__repr__\<close> \<open>r\<close> and its \<^verbatim>\<open>filename\<close> attribute
  \<open>fn\<close> (\<^verbatim>\<open>None\<close> when the exception was raised without one), by \<^verbatim>\<open>rmtree\<close> on a
  symbolic link (no file name) or on a symbolic-link loop (\<^verbatim>\<open>ELOOP\<close>, with the file
  name); \<open>RuntimeError r\<close> by \<^verbatim>\<open>Path.resolve\<close> on a symbolic-link loop, which also
  re-raises the \<open>NotADirectoryError\<close> of its final \<^verbatim>\<open>stat\<close>;
  \<open>Exc r\<close> is any other subclass of \<^verbatim>\<open>Exception\<close> (raised by the user script), known by
  its \<^verbatim>\<open>__repr__\<close> \<open>r\<close>; \<open>BaseExc r\<close> is a \<^verbatim>\<open>BaseException\<close> that is not an
  \<^verbatim>\<open>Exception\<close> (\<^verbatim>\<open>KeyboardInterrupt\<close>, \<^verbatim>\<open>SystemExit\<close>), which
  \<^verbatim>\<open>except Exception\<close> does not catch.
\<close>

datatype exn =
    ClosedException
  | FileNotFoundError string
  | NotADirectoryError string
  | OSError string "string option"
  | RuntimeError string
  | Exc string
  | BaseExc string

text \<open>Whether \<^verbatim>\<open>except Exception\<close> catches the exception.\<close>

fun is_Exception :: "exn \<Rightarrow> bool" where
  "is_Exception (BaseExc _) = False"
| "is_Exception _ = True"

text \<open>\<^verbatim>\<open>exception.__repr__()\<close>. The \<^verbatim>\<open>OSError\<close> subclasses print their errno and
  message, not the file name.\<close>

fun exn_repr :: "exn \<Rightarrow> string" where
  "exn_repr ClosedException = ''ClosedException()''"
| "exn_repr (FileNotFoundError _) = ''FileNotFoundError(2, 'No such file or directory')''"
| "exn_repr (NotADirectoryError _) = ''NotADirectoryError(20, 'Not a directory')''"
| "exn_repr (OSError r _) = r"
| "exn_repr (RuntimeError r) = r"
| "exn_repr (Exc r) = r"
| "exn_repr (BaseExc r) = r"

section \<open>Paths\<close>

text \<open>An absolute path, as the list of its components below the root \<^verbatim>\<open>/\<close>.\<close>

type_synonym path = "string list"

section \<open>Generic list lemmas\<close>

lemma list_all2_append_single [simp]:
  "list_all2 P (xs @ [x]) (ys @ [y]) \<longleftrightarrow> list_all2 P xs ys \<and> P x y"
proof (cases "length xs = length ys")
  case True
  then show ?thesis by (simp add: list_all2_append)
next
  case False
  then show ?thesis by (auto dest: list_all2_lengthD)
qed

end
