(* ===== verification/Paths.thy ===== *)
theory Paths
  imports Prelude
begin

text \<open>
  Paths as lists of components. A string path is split at \<^verbatim>\<open>/\<close> (as
  \<^verbatim>\<open>str.split('/')\<close>); \<open>norm_step\<close> is the lexical normalisation of one component
  (\<^verbatim>\<open>normpath\<close>: empty and \<^verbatim>\<open>.\<close> components are dropped, \<^verbatim>\<open>..\<close> removes the last
  component and stays at the root), used by the model of \<^verbatim>\<open>realpath\<close> in theory
  \<open>Realpath\<close>; \<open>path_str\<close> is \<^verbatim>\<open>str\<close> of a resolved path, as the log messages of
  lines 57 and 69--71 print it.
\<close>

section \<open>Splitting and joining at a separator\<close>

fun split_on :: "char \<Rightarrow> string \<Rightarrow> string list" where
  "split_on c [] = [[]]"
| "split_on c (x # xs) =
     (let r = split_on c xs in if x = c then [] # r else (x # hd r) # tl r)"

fun join_on :: "char \<Rightarrow> string list \<Rightarrow> string" where
  "join_on c [] = []"
| "join_on c [w] = w"
| "join_on c (w # ws) = w @ c # join_on c ws"

section \<open>Lexical normalisation\<close>

text \<open>One component of the lexical normalisation of a path.\<close>

fun norm_step :: "path \<Rightarrow> string \<Rightarrow> path" where
  "norm_step acc w =
     (if w = [] \<or> w = ''.'' then acc
      else if w = ''..'' then butlast acc
      else acc @ [w])"

definition is_abs :: "string \<Rightarrow> bool" where
  "is_abs p \<longleftrightarrow> p \<noteq> [] \<and> hd p = CHR ''/''"

text \<open>\<^verbatim>\<open>str\<close> of a resolved path.\<close>

definition path_str :: "path \<Rightarrow> string" where
  "path_str q = CHR ''/'' # join_on CHR ''/'' q"

text \<open>A resolved path: no empty, \<^verbatim>\<open>.\<close> or \<^verbatim>\<open>..\<close> component, none holding a \<^verbatim>\<open>/\<close>.\<close>

definition wf_comp :: "string \<Rightarrow> bool" where
  "wf_comp w \<longleftrightarrow> w \<noteq> [] \<and> w \<noteq> ''.'' \<and> w \<noteq> ''..'' \<and> CHR ''/'' \<notin> set w"

definition wf_path :: "path \<Rightarrow> bool" where
  "wf_path q \<longleftrightarrow> list_all wf_comp q"

section \<open>Splitting and joining\<close>

lemma split_on_not_Nil [simp]: "split_on c s \<noteq> []"
  by (induction s) (simp_all add: Let_def)

section \<open>Normal paths\<close>

lemma wf_path_simps [simp]:
  "wf_path []" "wf_path (q @ [w]) \<longleftrightarrow> wf_path q \<and> wf_comp w"
  by (simp_all add: wf_path_def)

lemma wf_path_butlast: "wf_path q \<Longrightarrow> wf_path (butlast q)"
  by (induction q rule: rev_induct) simp_all

lemma wf_path_norm_step: "wf_path acc \<Longrightarrow> (\<not> wf_comp w \<longrightarrow> w = [] \<or> w = ''.'' \<or> w = ''..'' ) \<Longrightarrow>
    wf_path (norm_step acc w)"
  by (auto simp: wf_path_butlast wf_comp_def)

lemma wf_path_foldl_norm_step:
  "wf_path acc \<Longrightarrow> \<forall>w \<in> set ws. CHR ''/'' \<notin> set w \<Longrightarrow> wf_path (foldl norm_step acc ws)"
proof (induction ws arbitrary: acc)
  case (Cons w ws)
  have "wf_path (norm_step acc w)"
    using Cons.prems by (intro wf_path_norm_step) (auto simp: wf_comp_def)
  then show ?case using Cons by simp
qed simp

lemma split_on_no_sep: "w \<in> set (split_on c s) \<Longrightarrow> c \<notin> set w"
proof (induction s arbitrary: w)
  case (Cons x xs)
  show ?case
  proof (cases "x = c")
    case True
    then show ?thesis using Cons by (auto simp: Let_def)
  next
    case False
    have "hd (split_on c xs) \<in> set (split_on c xs)" "set (tl (split_on c xs)) \<subseteq> set (split_on c xs)"
      by (simp_all add: list.set_sel(2) subsetI)
    then show ?thesis using Cons False by (auto simp: Let_def)
  qed
qed simp

end
