(* ===== verification/Filesystem.thy ===== *)
theory Filesystem
  imports Paths
begin

text \<open>
  The part of the file system the processing thread touches. The file system is a map
  from physical absolute paths (paths whose components are directories, never
  symbolic links) to the node stored there: a file, a directory, or a symbolic link
  with its target string. The map stands for a tree: every proper prefix of a key is a
  directory; the root directory is implicit. File contents and permissions are not
  modelled; the user script is the only other writer, and it is given the whole map.

  \<open>walk\<close> is the kernel's path lookup (Linux \<^verbatim>\<open>namei\<close>), which \<^verbatim>\<open>os.lstat\<close>,
  \<^verbatim>\<open>os.stat\<close> and \<^verbatim>\<open>os.open\<close> perform: components are taken one by one, \<^verbatim>\<open>.\<close> and
  empty components are skipped, \<^verbatim>\<open>..\<close> goes to the physical parent, every component
  but the last must be a directory or a link to one, and a symbolic link is replaced by
  its target (relative to the directory holding it). The kernel follows at most
  \<open>max_symlinks\<close> = 40 links in one lookup and fails with \<^verbatim>\<open>ELOOP\<close> after that; this
  count of the kernel bounds the recursion of \<open>walk\<close>. A trailing separator leaves an empty last component,
  so the component before it is looked up as a directory, as the kernel does.

  \<open>rmtree\<close> is \<^verbatim>\<open>shutil.rmtree(p)\<close> (line 73 of \<^verbatim>\<open>processing_thread.py\<close>) as
  Python 3.11 implements it on Linux (\<^verbatim>\<open>_rmtree_safe_fd\<close>): \<^verbatim>\<open>os.lstat(p)\<close>, then
  \<^verbatim>\<open>os.open(p)\<close> and the \<^verbatim>\<open>samestat\<close> check, which refuses a symbolic link with
  \<^verbatim>\<open>OSError\<close>; a file fails in \<^verbatim>\<open>os.scandir\<close> with \<^verbatim>\<open>NotADirectoryError\<close>; a
  directory is removed with everything below it, links inside it being unlinked, not
  followed.
\<close>

datatype node = File | Dir | Link string

type_synonym fs = "path \<rightharpoonup> node"

text \<open>The errors of a path lookup.\<close>

datatype errno = ENOENT | ENOTDIR | ELOOP

definition max_symlinks :: nat where
  "max_symlinks = 40"

text \<open>The kernel's lookup of the components \<open>cs\<close> from the directory \<open>cur\<close>, with \<open>n\<close>
  more links allowed; \<open>fl\<close>: whether a link in the last component is followed
  (\<^verbatim>\<open>stat\<close>, \<^verbatim>\<open>open\<close>) or returned (\<^verbatim>\<open>lstat\<close>).\<close>

function walk :: "fs \<Rightarrow> nat \<Rightarrow> path \<Rightarrow> string list \<Rightarrow> bool \<Rightarrow> errno + path" where
  "walk f n cur [] fl = Inr cur"
| "walk f n cur (c # cs) fl =
     (if c = [] \<or> c = ''.'' then walk f n cur cs fl
      else if c = ''..'' then walk f n (butlast cur) cs fl
      else (case f (cur @ [c]) of
              None \<Rightarrow> Inl ENOENT
            | Some File \<Rightarrow> if cs = [] then Inr (cur @ [c]) else Inl ENOTDIR
            | Some Dir \<Rightarrow> walk f n (cur @ [c]) cs fl
            | Some (Link t) \<Rightarrow>
                if cs = [] \<and> \<not> fl then Inr (cur @ [c])
                else if t = [] then Inl ENOENT
                else if n = 0 then Inl ELOOP
                else walk f (n - 1) (if is_abs t then [] else cur) (split_on CHR ''/'' t @ cs) fl))"
  by pat_completeness auto
termination
  by (relation "measures [\<lambda>(f, n, cur, cs, fl). n, \<lambda>(f, n, cur, cs, fl). length cs]") auto

text \<open>Where the lookup of the string \<open>p\<close> starts: the root, or the working directory of
  the process (a physical path, as \<^verbatim>\<open>os.getcwd()\<close> returns it).\<close>

definition start_dir :: "path \<Rightarrow> string \<Rightarrow> path" where
  "start_dir cwd p = (if is_abs p then [] else cwd)"

definition lstat_path :: "fs \<Rightarrow> path \<Rightarrow> string \<Rightarrow> errno + path" where
  "lstat_path f cwd p = walk f max_symlinks (start_dir cwd p) (split_on CHR ''/'' p) False"

definition stat_path :: "fs \<Rightarrow> path \<Rightarrow> string \<Rightarrow> errno + path" where
  "stat_path f cwd p = walk f max_symlinks (start_dir cwd p) (split_on CHR ''/'' p) True"

text \<open>The \<^verbatim>\<open>OSError\<close> subclass Python raises for an errno, with the file name.\<close>

fun errno_exn :: "errno \<Rightarrow> string \<Rightarrow> exn" where
  "errno_exn ENOENT p = FileNotFoundError p"
| "errno_exn ENOTDIR p = NotADirectoryError p"
| "errno_exn ELOOP p = OSError ''OSError(40, 'Too many levels of symbolic links')'' (Some p)"

text \<open>The tree rooted at \<open>a\<close>: \<open>a\<close> and every path below it.\<close>

definition in_tree :: "path \<Rightarrow> path \<Rightarrow> bool" where
  "in_tree a q \<longleftrightarrow> prefix a q"

text \<open>The file system once the tree rooted at \<open>a\<close> is deleted.\<close>

definition remove_tree :: "path \<Rightarrow> fs \<Rightarrow> fs" where
  "remove_tree a f = (\<lambda>q. if in_tree a q then None else f q)"

definition rmtree :: "path \<Rightarrow> string \<Rightarrow> fs \<Rightarrow> exn + fs" where
  "rmtree cwd p f =
     (case lstat_path f cwd p of
        Inl e \<Rightarrow> Inl (errno_exn e p)
      | Inr a \<Rightarrow>
          (case f a of
             Some Dir \<Rightarrow> Inr (remove_tree a f)
           | Some File \<Rightarrow> Inl (NotADirectoryError p)
           | Some (Link _) \<Rightarrow>
               (case stat_path f cwd p of
                  Inl e \<Rightarrow> Inl (errno_exn e p)
                | Inr _ \<Rightarrow> Inl (OSError ''OSError('Cannot call rmtree on a symbolic link')'' None))
           | None \<Rightarrow> Inl (FileNotFoundError p)))"

text \<open>The exceptions \<^verbatim>\<open>rmtree(p)\<close> raises: a lookup error or \<open>NotADirectoryError\<close>
  whose \<^verbatim>\<open>filename\<close> is \<open>p\<close>, or the refusal of a symbolic link, an \<^verbatim>\<open>OSError\<close>
  raised without a file name.\<close>

fun rm_error :: "string \<Rightarrow> exn \<Rightarrow> bool" where
  "rm_error p (FileNotFoundError q) \<longleftrightarrow> q = p"
| "rm_error p (NotADirectoryError q) \<longleftrightarrow> q = p"
| "rm_error p (OSError r q) \<longleftrightarrow> q = Some p \<or> (q = None \<and> r = ''OSError('Cannot call rmtree on a symbolic link')'')"
| "rm_error p _ \<longleftrightarrow> False"

text \<open>A file system without symbolic links.\<close>

definition link_free :: "fs \<Rightarrow> bool" where
  "link_free f \<longleftrightarrow> (\<forall>q t. f q \<noteq> Some (Link t))"

section \<open>Lookups\<close>

declare walk.simps [simp del]

lemma walk_Nil [simp]: "walk f n cur [] fl = Inr cur"
  by (simp add: walk.simps)

section \<open>rmtree\<close>

lemma rmtree_Inr_iff:
  "rmtree cwd p f = Inr f' \<longleftrightarrow>
     (\<exists>a. lstat_path f cwd p = Inr a \<and> f a = Some Dir \<and> f' = remove_tree a f)"
  by (auto simp: rmtree_def split: sum.splits option.splits node.splits)

lemma rmtree_Inl_rm_error: "rmtree cwd p f = Inl e \<Longrightarrow> rm_error p e"
proof -
  have "rm_error p (errno_exn x p)" for x by (cases x) simp_all
  then show "rmtree cwd p f = Inl e \<Longrightarrow> rm_error p e"
    by (auto simp: rmtree_def split: sum.splits option.splits node.splits)
qed

lemma in_tree_refl [simp]: "in_tree a a"
  by (simp add: in_tree_def)

text \<open>A file system built from files and directories has no link, and deleting a tree
  or adding a file keeps it so.\<close>

lemma link_free_empty [simp]: "link_free Map.empty"
  by (simp add: link_free_def)

lemma link_free_upd [simp]: "link_free f \<Longrightarrow> n \<in> {File, Dir} \<Longrightarrow> link_free (f(a \<mapsto> n))"
  by (auto simp: link_free_def)

lemma remove_tree_apply [simp]: "remove_tree a f q = (if in_tree a q then None else f q)"
  by (simp add: remove_tree_def)

lemma link_free_remove [simp]: "link_free f \<Longrightarrow> link_free (remove_tree a f)"
  by (simp add: link_free_def)

text \<open>Deleting a tree changes a lookup only by making it fail with \<open>ENOENT\<close> where it
  entered the tree.\<close>

lemma walk_remove_tree:
  "walk (remove_tree a f) n cur cs fl = walk f n cur cs fl \<or> walk (remove_tree a f) n cur cs fl = Inl ENOENT"
proof (induction f n cur cs fl rule: walk.induct)
  case (1 f n cur fl)
  then show ?case by simp
next
  case (2 f n cur c cs fl)
  show ?case
  proof (cases "in_tree a (cur @ [c]) \<and> \<not> (c = [] \<or> c = ''.'' \<or> c = ''..'')")
    case True
    then show ?thesis by (simp add: walk.simps(2))
  next
    case False
    then show ?thesis using 2
      by (cases "f (cur @ [c])") (auto simp: walk.simps(2) split: node.splits)
  qed
qed

section \<open>Properties of the model of rmtree\<close>

text \<open>\<^verbatim>\<open>rmtree\<close> deletes only a real directory: the path is looked up
  without following its final component; if that is a directory, exactly the tree below
  it is deleted (the entries of links inside the tree are removed, their targets are
  kept); if it is a symbolic link, \<^verbatim>\<open>rmtree\<close> raises an error of \<open>rm_error\<close> (the
  \<^verbatim>\<open>OSError\<close> without file name, or the lookup error of the link's target) and deletes
  nothing, even when the link leads to a directory; if it is a file, it raises
  \<open>NotADirectoryError\<close>.\<close>

lemma rmtree_safe:
  assumes "lstat_path f cwd p = Inr a"
  shows "(f a = Some Dir \<longrightarrow> rmtree cwd p f = Inr (remove_tree a f)) \<and>
         (\<forall>t. f a = Some (Link t) \<longrightarrow> (\<exists>e. rmtree cwd p f = Inl e \<and> rm_error p e)) \<and>
         (f a = Some File \<longrightarrow> rmtree cwd p f = Inl (NotADirectoryError p))"
  using assms rmtree_Inl_rm_error [of cwd p f] by (auto simp: rmtree_def split: sum.splits)

text \<open>\<^verbatim>\<open>rmtree\<close> fails loudly on a path that is gone: after a
  successful \<^verbatim>\<open>rmtree(p)\<close>, a second \<^verbatim>\<open>rmtree(p)\<close> raises \<open>FileNotFoundError\<close> for
  \<open>p\<close> (spec section 6), it is never a silent no-op.\<close>

lemma rmtree_twice: "rmtree cwd p f = Inr f' \<Longrightarrow> rmtree cwd p f' = Inl (FileNotFoundError p)"
proof -
  assume "rmtree cwd p f = Inr f'"
  then obtain a where l: "lstat_path f cwd p = Inr a" and f': "f' = remove_tree a f"
    by (auto simp: rmtree_Inr_iff)
  have "lstat_path f' cwd p = Inr a \<or> lstat_path f' cwd p = Inl ENOENT"
    using walk_remove_tree [of a f max_symlinks "start_dir cwd p" "split_on CHR ''/'' p" False] l f'
    by (simp add: lstat_path_def)
  then show ?thesis
    using f' by (auto simp: rmtree_def)
qed

end
