(* ===== verification/Realpath.thy ===== *)
theory Realpath
  imports Filesystem "HOL-Library.Monad_Syntax"
begin

text \<open>
  \<^verbatim>\<open>Path(name).resolve()\<close> (line 54 of \<^verbatim>\<open>processing_thread.py\<close>) as Python 3.11
  computes it on a file system with symbolic links: \<^verbatim>\<open>os.path.realpath\<close>, that is
  \<^verbatim>\<open>posixpath._joinrealpath\<close>, followed by the \<^verbatim>\<open>stat()\<close> that \<^verbatim>\<open>pathlib\<close> calls to
  turn a symbolic-link loop into \<^verbatim>\<open>RuntimeError\<close>, re-raising any other error but
  \<^verbatim>\<open>ENOENT\<close>. The string is first parsed as
  \<^verbatim>\<open>Path(p)\<close> parses it (\<open>path_parts\<close>).

  \<open>jrp\<close> is \<^verbatim>\<open>_joinrealpath(path, rest, strict=False, seen)\<close>: the components of
  \<open>rest\<close> are joined to \<open>path\<close> one by one, a symbolic link is replaced by the
  resolution of its target, and the dictionary \<^verbatim>\<open>seen\<close> maps each link met to its
  resolution (\<open>Some q\<close>) or to \<^verbatim>\<open>None\<close> while it is being resolved, so that meeting it
  again is a loop: the resolution then stops and returns the rest of the path
  unresolved, with \<^verbatim>\<open>ok = False\<close>. The recursion into a link target makes the
  function a \<open>partial_function\<close> in the option monad; on a finite file system it always
  returns (\<open>jrp_terminates\<close>). On a file system without links \<open>jrp\<close> computes the
  lexical normalisation of \<open>Paths\<close> (\<open>jrp_link_free\<close>).
\<close>

type_synonym seen = "path \<rightharpoonup> path option"

text \<open>\<^verbatim>\<open>os.path.join(x, rest)\<close> followed by \<^verbatim>\<open>normpath\<close>, for the remaining components
  \<open>cs\<close> of \<open>rest\<close>: a remainder that starts with a separator replaces \<open>x\<close>.\<close>

definition pjoin :: "path \<Rightarrow> string list \<Rightarrow> path" where
  "pjoin x cs = foldl norm_step (if 2 \<le> length cs \<and> hd cs = [] then [] else x) cs"

text \<open>The target of the node at a path, if it is a symbolic link (\<^verbatim>\<open>os.lstat\<close>
  and \<^verbatim>\<open>S_ISLNK\<close>, then \<^verbatim>\<open>os.readlink\<close>; a failing \<^verbatim>\<open>lstat\<close> counts as no link).\<close>

fun link_target :: "node option \<Rightarrow> string option" where
  "link_target (Some (Link t)) = Some t"
| "link_target _ = None"

partial_function (option) jrp :: "fs \<Rightarrow> seen \<Rightarrow> path \<times> string list \<Rightarrow> (path \<times> bool \<times> seen) option"
where
  "jrp f sn pr =
     (case pr of
        (p, []) \<Rightarrow> Some (p, True, sn)
      | (p, name # rest') \<Rightarrow>
          if name = [] \<or> name = ''.'' then jrp f sn (p, rest')
          else if name = ''..'' then jrp f sn (butlast p, rest')
          else (case link_target (f (p @ [name])) of
                  Some t \<Rightarrow>
                    (case sn (p @ [name]) of
                       Some (Some q) \<Rightarrow> jrp f sn (q, rest')
                     | Some None \<Rightarrow> Some (pjoin (p @ [name]) rest', False, sn)
                     | None \<Rightarrow>
                         do {
                           (q, ok, sn1) \<leftarrow> jrp f (sn(p @ [name] \<mapsto> None))
                                              (if is_abs t then [] else p, split_on CHR ''/'' t);
                           if ok then jrp f (sn1(p @ [name] \<mapsto> Some q)) (q, rest')
                           else Some (pjoin q rest', False, sn1)
                         })
                | None \<Rightarrow> jrp f sn (p @ [name], rest')))"

text \<open>The parts of \<^verbatim>\<open>Path(p)\<close>: \<^verbatim>\<open>pathlib\<close> drops empty and \<^verbatim>\<open>.\<close> components when it
  parses the string, so \<^verbatim>\<open>str(Path(p))\<close>, which \<^verbatim>\<open>resolve\<close> hands to \<^verbatim>\<open>realpath\<close>,
  has neither; \<^verbatim>\<open>..\<close> is kept.\<close>

definition path_parts :: "string \<Rightarrow> string list" where
  "path_parts p = filter (\<lambda>c. c \<noteq> [] \<and> c \<noteq> ''.'') (split_on CHR ''/'' p)"

text \<open>\<^verbatim>\<open>Path(p).resolve()\<close> in a process whose working directory is \<open>cwd\<close>. A relative
  \<open>p\<close> is resolved from \<open>cwd\<close>, which is physical, as the kernel resolves the relative
  lookups of \<^verbatim>\<open>realpath\<close>. The final \<^verbatim>\<open>p.stat()\<close> of non-strict \<^verbatim>\<open>resolve\<close>
  (Python 3.11) ignores \<^verbatim>\<open>ENOENT\<close>, turns \<^verbatim>\<open>ELOOP\<close> into \<open>RuntimeError\<close> and
  re-raises every other error, here \<^verbatim>\<open>ENOTDIR\<close> (a component of the result is a
  file). The \<open>None\<close> case, a recursion that does not end, happens on no finite file
  system; Python would stop it with \<^verbatim>\<open>RecursionError\<close>.\<close>

definition path_resolve :: "fs \<Rightarrow> path \<Rightarrow> string \<Rightarrow> exn + path" where
  "path_resolve f cwd p =
     (case jrp f Map.empty (start_dir cwd p, path_parts p) of
        None \<Rightarrow> Inl (RuntimeError ''RecursionError('maximum recursion depth exceeded')'')
      | Some (r, _, _) \<Rightarrow>
          (case stat_path f cwd (path_str r) of
             Inl ELOOP \<Rightarrow>
               Inl (RuntimeError (''RuntimeError(\"Symlink loop from PosixPath('' @ [CHR 0x27] @
                                  path_str r @ [CHR 0x27] @ ''))\")''))
           | Inl ENOTDIR \<Rightarrow> Inl (NotADirectoryError (path_str r))
           | _ \<Rightarrow> Inr r))"

text \<open>The exceptions \<^verbatim>\<open>Path.resolve\<close> raises: the \<open>RuntimeError\<close> of a link loop and the
  re-raised \<open>NotADirectoryError\<close> of the final \<^verbatim>\<open>stat\<close>.\<close>

fun resolve_error :: "exn \<Rightarrow> bool" where
  "resolve_error (RuntimeError _) = True"
| "resolve_error (NotADirectoryError _) = True"
| "resolve_error _ = False"

text \<open>Every link resolved so far in \<open>seen\<close> has a well-formed resolution.\<close>

definition seen_wf :: "seen \<Rightarrow> bool" where
  "seen_wf sn \<longleftrightarrow> (\<forall>x y. sn x = Some (Some y) \<longrightarrow> wf_path y)"

section \<open>Unfolding\<close>

text \<open>The two cases of \<open>jrp\<close>, by the list of names still to resolve; with them \<open>simp\<close>
  evaluates \<open>jrp\<close> on a concrete file system.\<close>

lemma jrp_Nil: "jrp f sn (p, []) = Some (p, True, sn)"
  by (subst jrp.simps) simp

lemma jrp_Cons:
  "jrp f sn (p, name # rest') =
     (if name = [] \<or> name = ''.'' then jrp f sn (p, rest')
      else if name = ''..'' then jrp f sn (butlast p, rest')
      else (case link_target (f (p @ [name])) of
              Some t \<Rightarrow>
                (case sn (p @ [name]) of
                   Some (Some q) \<Rightarrow> jrp f sn (q, rest')
                 | Some None \<Rightarrow> Some (pjoin (p @ [name]) rest', False, sn)
                 | None \<Rightarrow>
                     do {
                       (q, ok, sn1) \<leftarrow> jrp f (sn(p @ [name] \<mapsto> None))
                                          (if is_abs t then [] else p, split_on CHR ''/'' t);
                       if ok then jrp f (sn1(p @ [name] \<mapsto> Some q)) (q, rest')
                       else Some (pjoin q rest', False, sn1)
                     })
            | None \<Rightarrow> jrp f sn (p @ [name], rest')))"
  by (subst jrp.simps) simp

lemmas jrp_simps = jrp_Nil jrp_Cons

section \<open>Without links: lexical resolution\<close>

lemma link_target_link_free:
  assumes "link_free f"
  shows "link_target (f q) = None"
proof (cases "f q")
  case (Some n)
  then show ?thesis using assms by (cases n) (auto simp: link_free_def)
qed simp

lemma jrp_link_free:
  "link_free f \<Longrightarrow> jrp f sn (p, rest) = Some (foldl norm_step p rest, True, sn)"
proof (induction rest arbitrary: p)
  case Nil
  then show ?case by (subst jrp.simps) simp
next
  case (Cons name rest)
  then have "jrp f sn (p, name # rest) =
             (if name = [] \<or> name = ''.'' then jrp f sn (p, rest)
              else if name = ''..'' then jrp f sn (butlast p, rest)
              else jrp f sn (p @ [name], rest))"
    by (subst jrp.simps) (simp add: link_target_link_free)
  with Cons show ?case by simp
qed

text \<open>Dropping the empty and \<^verbatim>\<open>.\<close> components, as \<^verbatim>\<open>Path(p)\<close> does, does not change
  a lexical resolution.\<close>

lemma foldl_norm_step_filter:
  "foldl norm_step acc (filter (\<lambda>c. c \<noteq> [] \<and> c \<noteq> ''.'') cs) = foldl norm_step acc cs"
  by (induction cs arbitrary: acc) auto

section \<open>Errors\<close>

lemma path_resolve_Inl: "path_resolve f cwd p = Inl e \<Longrightarrow> resolve_error e"
  by (auto simp: path_resolve_def split: option.splits prod.splits sum.splits errno.splits)

section \<open>Termination on a finite file system\<close>

text \<open>Every link resolved is recorded in \<open>seen\<close>, so the links not yet in \<open>seen\<close> are
  fewer at each recursion into a link target.\<close>

lemma card_unseen_less:
  assumes "finite L" "x \<in> L" "x \<notin> dom sn" "insert x (dom sn) \<subseteq> dom sn'"
  shows "card (L - dom sn') < card (L - dom sn)"
proof (rule psubset_card_mono)
  show "finite (L - dom sn)" using assms(1) by simp
  show "L - dom sn' \<subset> L - dom sn" using assms(2-4) by blast
qed

lemma jrp_Some:
  assumes fin: "finite (dom f)"
  shows "\<exists>q ok sn'. jrp f sn (p, rest) = Some (q, ok, sn') \<and> dom sn \<subseteq> dom sn'"
proof -
  define L where "L = {q. link_target (f q) \<noteq> None}"
  have finL: "finite L"
    using fin by (rule finite_subset [rotated]) (auto simp: L_def elim: link_target.elims)
  show ?thesis
  proof (induction "card (L - dom sn)" arbitrary: sn p rest rule: less_induct)
    case less
    show ?case
    proof (induction rest arbitrary: p)
      case Nil
      show ?case by (subst jrp.simps) auto
    next
      case (Cons name rest)
      show ?case
      proof (cases "name = [] \<or> name = ''.'' \<or> name = ''..''")
        case True
        then show ?thesis using Cons.IH by (subst jrp.simps) auto
      next
        case name: False
        show ?thesis
        proof (cases "link_target (f (p @ [name]))")
          case None
          then have "jrp f sn (p, name # rest) = jrp f sn (p @ [name], rest)"
            using name by (subst jrp.simps) simp
          with Cons.IH show ?thesis by simp
        next
          case (Some t)
          then have inL: "p @ [name] \<in> L" by (simp add: L_def)
          show ?thesis
          proof (cases "sn (p @ [name])")
            case (Some v)
            with name \<open>link_target (f (p @ [name])) = Some t\<close> Cons.IH show ?thesis
              by (subst jrp.simps) (auto split: option.splits)
          next
            case None
            let ?sn0 = "sn(p @ [name] \<mapsto> None)"
            have "card (L - dom ?sn0) < card (L - dom sn)"
              using finL inL None by (intro card_unseen_less) auto
            from less [OF this] obtain q ok sn1 where
              inner: "jrp f ?sn0 (if is_abs t then [] else p, split_on CHR ''/'' t) = Some (q, ok, sn1)"
              and sub1: "dom ?sn0 \<subseteq> dom sn1"
              by blast
            let ?sn2 = "sn1(p @ [name] \<mapsto> Some q)"
            have "card (L - dom ?sn2) < card (L - dom sn)"
              using finL inL None sub1 by (intro card_unseen_less) auto
            from less [OF this] obtain q' ok' sn3 where
              cont: "jrp f ?sn2 (q, rest) = Some (q', ok', sn3)" and sub3: "dom ?sn2 \<subseteq> dom sn3"
              by blast
            have unf: "jrp f sn (p, name # rest) =
                (if ok then jrp f ?sn2 (q, rest) else Some (pjoin q rest, False, sn1))"
              using name \<open>link_target (f (p @ [name])) = Some t\<close> None inner by (subst jrp.simps) simp
            show ?thesis
              using unf cont sub1 sub3 by (cases ok) auto
          qed
        qed
      qed
    qed
  qed
qed

section \<open>Well-formed results\<close>

text \<open>By fixpoint induction over \<open>jrp\<close>: from a well-formed path and components without a
  separator, every result is well-formed, and so is every resolution recorded in
  \<open>seen\<close>.\<close>

lemma seen_wf_upd [simp]:
  "seen_wf sn \<Longrightarrow> seen_wf (sn(x \<mapsto> None))"
  "seen_wf sn \<Longrightarrow> wf_path q \<Longrightarrow> seen_wf (sn(x \<mapsto> Some q))"
  by (auto simp: seen_wf_def)

lemma seen_wf_empty [simp]: "seen_wf Map.empty"
  by (simp add: seen_wf_def)

lemma wf_path_pjoin: "wf_path x \<Longrightarrow> \<forall>w \<in> set cs. CHR ''/'' \<notin> set w \<Longrightarrow> wf_path (pjoin x cs)"
  unfolding pjoin_def by (rule wf_path_foldl_norm_step) simp_all

lemma jrp_wf:
  assumes "jrp f sn pr = Some r"
  shows "wf_path (fst pr) \<longrightarrow> (\<forall>w \<in> set (snd pr). CHR ''/'' \<notin> set w) \<longrightarrow> seen_wf sn \<longrightarrow>
         wf_path (fst r) \<and> seen_wf (snd (snd r))"
proof (rule jrp.raw_induct [where P = "\<lambda>f sn pr r. wf_path (fst pr) \<longrightarrow>
    (\<forall>w \<in> set (snd pr). CHR ''/'' \<notin> set w) \<longrightarrow> seen_wf sn \<longrightarrow>
    wf_path (fst r) \<and> seen_wf (snd (snd r))", OF _ assms], goal_cases)
  case (1 F f sn pr r)
  obtain p rest where pr: "pr = (p, rest)" by fastforce
  show ?case
  proof (intro impI)
    assume wp: "wf_path (fst pr)" and ws: "\<forall>w \<in> set (snd pr). CHR ''/'' \<notin> set w" and sw: "seen_wf sn"
    show "wf_path (fst r) \<and> seen_wf (snd (snd r))"
    proof (cases rest)
      case Nil
      with 1(2) pr wp sw show ?thesis by auto
    next
      case (Cons name rest')
      have wp': "wf_path p" and ws': "\<forall>w \<in> set rest'. CHR ''/'' \<notin> set w" and nm: "CHR ''/'' \<notin> set name"
        using wp ws pr Cons by auto
      have IH: "\<And>sn1 p1 rs r1. F f sn1 (p1, rs) = Some r1 \<Longrightarrow> wf_path p1 \<Longrightarrow>
                  \<forall>w \<in> set rs. CHR ''/'' \<notin> set w \<Longrightarrow> seen_wf sn1 \<Longrightarrow> wf_path (fst r1) \<and> seen_wf (snd (snd r1))"
        using 1(1) by fastforce
      show ?thesis
      proof (cases "name = [] \<or> name = ''.'' \<or> name = ''..''")
        case True
        with 1(2) pr Cons IH [of sn] wp' ws' sw show ?thesis
          by (auto simp: wf_path_butlast split: if_splits)
      next
        case name: False
        then have wn: "wf_path (p @ [name])" using wp' nm by (simp add: wf_comp_def)
        show ?thesis
        proof (cases "link_target (f (p @ [name]))")
          case None
          with 1(2) pr Cons name IH [of sn "p @ [name]" rest'] wn ws' sw show ?thesis by auto
        next
          case (Some t)
          have wt: "wf_path (if is_abs t then [] else p)" using wp' by simp
          have st: "\<forall>w \<in> set (split_on CHR ''/'' t). CHR ''/'' \<notin> set w" by (auto dest: split_on_no_sep)
          show ?thesis
          proof (cases "sn (p @ [name])")
            case None
            from 1(2) pr Cons name Some None obtain q ok sn1 where
              inner: "F f (sn(p @ [name] \<mapsto> None)) (if is_abs t then [] else p, split_on CHR ''/'' t) = Some (q, ok, sn1)"
              and rest: "(if ok then F f (sn1(p @ [name] \<mapsto> Some q)) (q, rest') else Some (pjoin q rest', False, sn1)) = Some r"
              by (auto split: Option.bind_splits)
            from IH [OF inner wt st] sw have wq: "wf_path q" and s1: "seen_wf sn1" by simp_all
            show ?thesis
            proof (cases ok)
              case True
              with rest IH [of "sn1(p @ [name] \<mapsto> Some q)" q rest' r] wq s1 ws' show ?thesis by simp
            next
              case False
              with rest wf_path_pjoin [OF wq ws'] s1 show ?thesis by auto
            qed
          next
            case (Some v)
            show ?thesis
            proof (cases v)
              case None
              with 1(2) pr Cons name \<open>link_target (f (p @ [name])) = Some t\<close> Some wf_path_pjoin [OF wn ws'] sw
              show ?thesis by auto
            next
              case (Some q)
              with \<open>sn (p @ [name]) = Some v\<close> sw have "wf_path q" by (auto simp: seen_wf_def)
              with 1(2) pr Cons name \<open>link_target (f (p @ [name])) = Some t\<close> \<open>sn (p @ [name]) = Some v\<close> Some
                IH [of sn q rest'] ws' sw
              show ?thesis by auto
            qed
          qed
        qed
      qed
    qed
  qed
qed

section \<open>Properties of the model of Path.resolve\<close>

text \<open>On a file system with finitely many entries,
  \<^verbatim>\<open>_joinrealpath\<close> returns from every call: each recursion into a link target
  records the link in \<open>seen\<close>, and a link met again is answered from \<open>seen\<close>, so the
  Python recursion is bounded and no \<^verbatim>\<open>RecursionError\<close> arises.\<close>

lemma jrp_terminates: "finite (dom f) \<Longrightarrow> jrp f sn (p, rest) \<noteq> None"
  using jrp_Some [of f sn p rest] by auto

text \<open>Whenever \<^verbatim>\<open>Path.resolve\<close> returns, from a well-formed working
  directory, its result is a well-formed absolute path: no empty, \<^verbatim>\<open>.\<close> or \<^verbatim>\<open>..\<close>
  component, whatever links it went through. This is the directory the script is run
  on.\<close>

lemma path_resolve_wf: "path_resolve f cwd p = Inr r \<Longrightarrow> wf_path cwd \<Longrightarrow> wf_path r"
proof -
  assume pr: "path_resolve f cwd p = Inr r" and wc: "wf_path cwd"
  then obtain ok sn where j: "jrp f Map.empty (start_dir cwd p, path_parts p) = Some (r, ok, sn)"
    by (auto simp: path_resolve_def split: option.splits prod.splits sum.splits errno.splits)
  have "wf_path (start_dir cwd p)" using wc by (simp add: start_dir_def)
  with jrp_wf [OF j] show ?thesis by (auto simp: path_parts_def dest: split_on_no_sep)
qed

end
