(* ===== verification/Wrapped_Queue.thy ===== *)
theory Wrapped_Queue
  imports Prelude
begin

text \<open>
  The closable queue \<^verbatim>\<open>transponster.util.WrappedQueue\<close> that connects the three
  pipeline threads. Its source is not part of the repository's \<^verbatim>\<open>src/\<close>; it is
  modelled from its contract (spec section 4.1): a FIFO of items and a closed flag.
  \<^verbatim>\<open>put\<close> appends, \<^verbatim>\<open>close\<close> sets the flag, \<^verbatim>\<open>empty\<close> tests for no queued item,
  and \<^verbatim>\<open>get\<close> takes the head, raises \<open>ClosedException\<close> on a closed and drained queue,
  and blocks on an open empty one. Blocking is the value \<open>None\<close>: the caller cannot
  take a step until another thread puts or closes.
\<close>

record 'a wqueue =
  wq_items :: "'a list"
  wq_closed :: bool

definition wq_new :: "'a wqueue" where
  "wq_new = \<lparr>wq_items = [], wq_closed = False\<rparr>"

definition wq_put :: "'a \<Rightarrow> 'a wqueue \<Rightarrow> 'a wqueue" where
  "wq_put x q = q\<lparr>wq_items := wq_items q @ [x]\<rparr>"

definition wq_empty :: "'a wqueue \<Rightarrow> bool" where
  "wq_empty q \<longleftrightarrow> wq_items q = []"

definition wq_close :: "'a wqueue \<Rightarrow> 'a wqueue" where
  "wq_close q = q\<lparr>wq_closed := True\<rparr>"

definition wq_get :: "'a wqueue \<Rightarrow> ((exn + 'a) \<times> 'a wqueue) option" where
  "wq_get q =
     (case wq_items q of
        x # xs \<Rightarrow> Some (Inr x, q\<lparr>wq_items := xs\<rparr>)
      | [] \<Rightarrow> if wq_closed q then Some (Inl ClosedException, q) else None)"

lemmas wq_defs = wq_new_def wq_put_def wq_empty_def wq_close_def

section \<open>Behaviour of the operations\<close>

lemma wq_put_items [simp]: "wq_items (wq_put x q) = wq_items q @ [x]"
  by (simp add: wq_put_def)

lemma wq_put_closed [simp]: "wq_closed (wq_put x q) = wq_closed q"
  by (simp add: wq_put_def)

lemma wq_close_items [simp]: "wq_items (wq_close q) = wq_items q"
  by (simp add: wq_close_def)

lemma wq_close_closed [simp]: "wq_closed (wq_close q)"
  by (simp add: wq_close_def)

lemma wq_close_idem [simp]: "wq_close (wq_close q) = wq_close q"
  by (simp add: wq_close_def)

lemma wq_new_simps [simp]: "wq_items wq_new = []" "\<not> wq_closed wq_new"
  by (simp_all add: wq_new_def)

lemma wq_get_Cons [simp]:
  "wq_items q = x # xs \<Longrightarrow> wq_get q = Some (Inr x, q\<lparr>wq_items := xs\<rparr>)"
  by (simp add: wq_get_def)

lemma wq_get_Nil [simp]:
  "wq_items q = [] \<Longrightarrow> wq_get q = (if wq_closed q then Some (Inl ClosedException, q) else None)"
  by (simp add: wq_get_def)

text \<open>\<^verbatim>\<open>get\<close> blocks exactly on an open, empty queue.\<close>

lemma wq_get_None_iff: "wq_get q = None \<longleftrightarrow> wq_items q = [] \<and> \<not> wq_closed q"
  by (cases "wq_items q") (simp_all add: wq_get_def)

text \<open>The only exception \<^verbatim>\<open>get\<close> raises is \<open>ClosedException\<close>, and only on a closed,
  drained queue, which it leaves unchanged.\<close>

lemma wq_get_Inl_iff:
  "wq_get q = Some (Inl e, q') \<longleftrightarrow>
     e = ClosedException \<and> q' = q \<and> wq_items q = [] \<and> wq_closed q"
  by (cases "wq_items q") (auto simp: wq_get_def)

text \<open>A successful \<^verbatim>\<open>get\<close> returns the head and leaves the tail; the closed flag is
  never changed by \<^verbatim>\<open>get\<close>.\<close>

lemma wq_get_Inr_iff:
  "wq_get q = Some (Inr x, q') \<longleftrightarrow>
     wq_items q = x # wq_items q' \<and> wq_closed q' = wq_closed q"
  by (cases "wq_items q") (auto simp: wq_get_def)

lemma wq_get_SomeE:
  assumes "wq_get q = Some (r, q')"
  obtains (closed) "r = Inl ClosedException" "q' = q" "wq_items q = []" "wq_closed q"
    | (item) x where "r = Inr x" "wq_items q = x # wq_items q'" "wq_closed q' = wq_closed q"
  using assms by (cases r) (auto simp: wq_get_Inl_iff wq_get_Inr_iff)

end
