(* ===== verification/Jobs.thy ===== *)
theory Jobs
  imports Realpath Wrapped_Queue
begin

text \<open>
  The data that flows through the pipeline, from \<^verbatim>\<open>transponster.util\<close> (not part of
  \<^verbatim>\<open>src/\<close>; modelled from spec section 3): a \<^verbatim>\<open>JobBatch\<close> is known by the name of its
  temporary working directory and the path of its input folder; a queue slot holds
  a batch or \<^verbatim>\<open>None\<close> (the skip marker of a batch that an earlier stage lost); a
  \<^verbatim>\<open>FailedJobBatch\<close> wraps a batch, the \<^verbatim>\<open>repr\<close> of the exception and an
  \<^verbatim>\<open>ErrorType\<close>; the user \<^verbatim>\<open>Script\<close> is a function of the working directory and the
  file system that returns the new file system and, if it raised, the exception; and
  the log is the list of \<^verbatim>\<open>info\<close> and \<^verbatim>\<open>error\<close> calls on the thread's logger.
\<close>

record job_batch =
  tmp_dir_name :: string
  input_folder_path :: string

datatype error_type = DOWNLOAD_FAILED | PROCESSING_FAILED

record failed_job_batch =
  fj_batch :: job_batch
  fj_error :: string
  fj_type :: error_type

text \<open>A slot of the \<^verbatim>\<open>downloaded\<close> and \<^verbatim>\<open>to_upload\<close> queues.\<close>

type_synonym item = "job_batch option"

text \<open>\<^verbatim>\<open>Script.run(working_dir)\<close>: the file system afterwards, and the exception it raised.\<close>

type_synonym script = "path \<Rightarrow> fs \<Rightarrow> exn option \<times> fs"

text \<open>One call on the structlog logger: \<^verbatim>\<open>info(msg)\<close>, or \<^verbatim>\<open>error(fjb.get_error_message())\<close>
  for a failed batch (the message format belongs to \<^verbatim>\<open>util\<close> and is kept abstract as the
  record it is computed from).\<close>

datatype log_entry = Log_info string | Log_error failed_job_batch

end
