(* ===== verification/Processing_Thread.thy ===== *)
theory Processing_Thread
  imports Jobs
begin

text \<open>
  \<^verbatim>\<open>ProcessingThread\<close> of \<^verbatim>\<open>src/transponster/processing_thread.py\<close>. The record holds
  the attributes set by \<^verbatim>\<open>__init__\<close> (the two pipeline queues, the error queue, the
  script, the \<^verbatim>\<open>done\<close> flag and the logger, as the list of its calls), the part of
  the process environment the thread uses (the file system and the working directory
  against which paths resolve), and the control point of \<^verbatim>\<open>run\<close>:
  \<^item> \<open>Loop_head\<close>: about to evaluate the \<^verbatim>\<open>while\<close> guard of line 41;
  \<^item> \<open>At_get\<close>: inside \<^verbatim>\<open>self.downloaded.get()\<close> of line 44, the only blocking call;
  \<^item> \<open>Returned\<close>: \<^verbatim>\<open>run\<close> returned after closing \<^verbatim>\<open>to_upload\<close>;
  \<^item> \<open>Raised e\<close>: the exception \<open>e\<close> escaped \<^verbatim>\<open>run\<close> and ended the thread.
  \<open>run_step\<close> moves from one control point to the next: the guard with the
  \<^verbatim>\<open>Waiting\<close> log line, or one \<^verbatim>\<open>get\<close> together with the rest of its iteration. The
  other threads touch only the queues, which this thread does not read back within an
  iteration, so running an iteration at once loses no interleaving.
\<close>

datatype pt_pc = Loop_head | At_get | Returned | Raised exn

text \<open>The thread is inside its loop; the thread has died of an exception.\<close>

fun is_running :: "pt_pc \<Rightarrow> bool" where
  "is_running Loop_head = True"
| "is_running At_get = True"
| "is_running _ = False"

fun is_raised :: "pt_pc \<Rightarrow> bool" where
  "is_raised (Raised _) = True"
| "is_raised _ = False"

record processing_thread =
  downloaded :: "item wqueue"
  to_upload :: "item wqueue"
  error_queue :: "failed_job_batch list"
  script :: script
  pt_done :: bool
  logger :: "log_entry list"
  files :: fs
  cwd :: path
  pc :: pt_pc

section \<open>Construction\<close>

text \<open>\<^verbatim>\<open>ProcessingThread(downloaded, to_upload, error_queue, script_to_run)\<close>, started
  in a process with file system \<open>f\<close> and working directory \<open>d\<close>.\<close>

definition init_thread ::
  "item wqueue \<Rightarrow> item wqueue \<Rightarrow> failed_job_batch list \<Rightarrow> script \<Rightarrow> fs \<Rightarrow> path \<Rightarrow>
   processing_thread" where
  "init_thread dq uq eq sc f d =
     \<lparr>downloaded = dq, to_upload = uq, error_queue = eq, script = sc, pt_done = False,
      logger = [], files = f, cwd = d, pc = Loop_head\<rparr>"

section \<open>The body of run\<close>

definition log_info :: "string \<Rightarrow> processing_thread \<Rightarrow> processing_thread" where
  "log_info m s = s\<lparr>logger := logger s @ [Log_info m]\<rparr>"

text \<open>Line 41: \<^verbatim>\<open>while not (self.downloaded.empty() and self.done)\<close>.\<close>

definition loop_guard :: "processing_thread \<Rightarrow> bool" where
  "loop_guard s \<longleftrightarrow> \<not> (wq_empty (downloaded s) \<and> pt_done s)"

text \<open>Lines 78--79, after the loop: close the output queue and log.\<close>

definition finish_run :: "processing_thread \<Rightarrow> processing_thread" where
  "finish_run s =
     (log_info ''Processing thread done'' (s\<lparr>to_upload := wq_close (to_upload s)\<rparr>))
       \<lparr>pc := Returned\<rparr>"

text \<open>Lines 49--52: a \<^verbatim>\<open>None\<close> slot is forwarded as \<^verbatim>\<open>None\<close>.\<close>

definition skip_batch :: "processing_thread \<Rightarrow> processing_thread" where
  "skip_batch s =
     (let s1 = log_info ''Processing: Batch is empty do to previous error'' s
      in s1\<lparr>to_upload := wq_put None (to_upload s1)\<rparr>)"

text \<open>Lines 60--67: the script raised an \<^verbatim>\<open>Exception\<close>.\<close>

definition script_failed :: "job_batch \<Rightarrow> exn \<Rightarrow> processing_thread \<Rightarrow> processing_thread" where
  "script_failed b e s =
     (let fjb = \<lparr>fj_batch = b, fj_error = exn_repr e, fj_type = PROCESSING_FAILED\<rparr>;
          s1 = s\<lparr>logger := logger s @ [Log_error fjb]\<rparr>;
          s2 = s1\<lparr>error_queue := error_queue s1 @ [fjb]\<rparr>
      in s2\<lparr>to_upload := wq_put None (to_upload s2)\<rparr>)"

text \<open>Lines 69--76: the script succeeded; delete the input folder, then forward the
  batch. An exception of \<^verbatim>\<open>rmtree\<close> is not caught and ends the thread.\<close>

definition purge_and_forward :: "job_batch \<Rightarrow> path \<Rightarrow> processing_thread \<Rightarrow> processing_thread" where
  "purge_and_forward b wd s =
     (let s1 = log_info (''Finished running script on '' @ path_str wd @ '', removing input'') s
      in case rmtree (cwd s1) (input_folder_path b) (files s1) of
           Inl e \<Rightarrow> s1\<lparr>pc := Raised e\<rparr>
         | Inr f \<Rightarrow> (s1\<lparr>files := f\<rparr>)\<lparr>to_upload := wq_put (Some b) (to_upload s1)\<rparr>)"

text \<open>Lines 53--76: a batch was dequeued. \<^verbatim>\<open>Path(...).resolve()\<close> of line 54 runs
  outside the \<^verbatim>\<open>try\<close>: its exception ends the thread. The script runs on the
  resolved working directory; \<^verbatim>\<open>except Exception\<close> catches every exception but a bare
  \<^verbatim>\<open>BaseException\<close>, which propagates.\<close>

definition process_batch :: "job_batch \<Rightarrow> processing_thread \<Rightarrow> processing_thread" where
  "process_batch b s =
     (let s1 = log_info (''Got batch at folder '' @ tmp_dir_name b) s in
      case path_resolve (files s1) (cwd s1) (tmp_dir_name b) of
        Inl e \<Rightarrow> s1\<lparr>pc := Raised e\<rparr>
      | Inr wd \<Rightarrow>
          (let s2 = log_info (''Running script on '' @ path_str wd) s1;
               (r, f) = script s2 wd (files s2);
               s3 = s2\<lparr>files := f\<rparr>
           in case r of
                None \<Rightarrow> purge_and_forward b wd s3
              | Some e \<Rightarrow> if is_Exception e then script_failed b e s3 else s3\<lparr>pc := Raised e\<rparr>))"

text \<open>Line 41--42: evaluate the guard; on entry, log and go to the \<^verbatim>\<open>get\<close>.\<close>

definition loop_head :: "processing_thread \<Rightarrow> processing_thread" where
  "loop_head s =
     (if loop_guard s then (log_info ''Waiting for next batch to process'' s)\<lparr>pc := At_get\<rparr>
      else finish_run s)"

text \<open>Lines 43--76: the \<^verbatim>\<open>get\<close> and the rest of the iteration. \<open>None\<close>: the \<^verbatim>\<open>get\<close>
  blocks. \<^verbatim>\<open>except ClosedException\<close> sets \<^verbatim>\<open>done\<close> and breaks out of the loop to
  line 78; any other exception of \<^verbatim>\<open>get\<close> would propagate.\<close>

definition take_item :: "processing_thread \<Rightarrow> processing_thread option" where
  "take_item s =
     (case wq_get (downloaded s) of
        None \<Rightarrow> None
      | Some (Inl e, q) \<Rightarrow>
          Some (if e = ClosedException then finish_run (s\<lparr>downloaded := q, pt_done := True\<rparr>)
                else s\<lparr>downloaded := q, pc := Raised e\<rparr>)
      | Some (Inr None, q) \<Rightarrow> Some (skip_batch (s\<lparr>downloaded := q, pc := Loop_head\<rparr>))
      | Some (Inr (Some b), q) \<Rightarrow> Some (process_batch b (s\<lparr>downloaded := q, pc := Loop_head\<rparr>)))"

text \<open>One step of \<^verbatim>\<open>run\<close>; \<open>None\<close> when the thread is blocked in \<^verbatim>\<open>get\<close> or has ended.\<close>

definition run_step :: "processing_thread \<Rightarrow> processing_thread option" where
  "run_step s =
     (case pc s of
        Loop_head \<Rightarrow> Some (loop_head s)
      | At_get \<Rightarrow> take_item s
      | Returned \<Rightarrow> None
      | Raised _ \<Rightarrow> None)"

text \<open>The measure that every step decreases: two per queued input, and the distance of
  the control point from the end of an iteration.\<close>

definition pt_measure :: "processing_thread \<Rightarrow> nat" where
  "pt_measure s =
     2 * length (wq_items (downloaded s)) +
     (case pc s of Loop_head \<Rightarrow> 2 | At_get \<Rightarrow> 1 | Returned \<Rightarrow> 0 | Raised _ \<Rightarrow> 0)"

text \<open>A well-formed thread state: the working directory is a resolved path, the
  \<^verbatim>\<open>done\<close> flag is unset while the thread is inside its loop, and a thread that has
  returned has set it, closed \<^verbatim>\<open>to_upload\<close> and logged its last line.\<close>

definition thread_wf :: "processing_thread \<Rightarrow> bool" where
  "thread_wf s \<longleftrightarrow>
     wf_path (cwd s) \<and> (is_running (pc s) \<longrightarrow> \<not> pt_done s) \<and>
     (pc s = Returned \<longrightarrow>
        pt_done s \<and> wq_closed (to_upload s) \<and> last (logger s) = Log_info ''Processing thread done'')"

section \<open>Frame lemmas\<close>

lemma log_info_simps [simp, pt_simps]:
  "downloaded (log_info m s) = downloaded s" "to_upload (log_info m s) = to_upload s"
  "error_queue (log_info m s) = error_queue s" "script (log_info m s) = script s"
  "pt_done (log_info m s) = pt_done s" "logger (log_info m s) = logger s @ [Log_info m]"
  "files (log_info m s) = files s" "cwd (log_info m s) = cwd s" "pc (log_info m s) = pc s"
  by (simp_all add: log_info_def)

lemma finish_run_simps [simp, pt_simps]:
  "downloaded (finish_run s) = downloaded s" "to_upload (finish_run s) = wq_close (to_upload s)"
  "error_queue (finish_run s) = error_queue s" "pt_done (finish_run s) = pt_done s"
  "files (finish_run s) = files s" "cwd (finish_run s) = cwd s" "pc (finish_run s) = Returned"
  "script (finish_run s) = script s"
  "logger (finish_run s) = logger s @ [Log_info ''Processing thread done'']"
  by (simp_all add: finish_run_def)

lemma skip_batch_simps [simp, pt_simps]:
  "downloaded (skip_batch s) = downloaded s" "to_upload (skip_batch s) = wq_put None (to_upload s)"
  "error_queue (skip_batch s) = error_queue s" "pt_done (skip_batch s) = pt_done s"
  "files (skip_batch s) = files s" "cwd (skip_batch s) = cwd s" "pc (skip_batch s) = pc s"
  "script (skip_batch s) = script s"
  by (simp_all add: skip_batch_def)

lemma script_failed_simps [simp, pt_simps]:
  "downloaded (script_failed b e s) = downloaded s"
  "to_upload (script_failed b e s) = wq_put None (to_upload s)"
  "error_queue (script_failed b e s) =
     error_queue s @ [\<lparr>fj_batch = b, fj_error = exn_repr e, fj_type = PROCESSING_FAILED\<rparr>]"
  "pt_done (script_failed b e s) = pt_done s" "files (script_failed b e s) = files s"
  "cwd (script_failed b e s) = cwd s" "pc (script_failed b e s) = pc s"
  "script (script_failed b e s) = script s"
  by (simp_all add: script_failed_def Let_def)

lemma purge_and_forward_frame [simp, pt_simps]:
  "downloaded (purge_and_forward b wd s) = downloaded s"
  "error_queue (purge_and_forward b wd s) = error_queue s"
  "pt_done (purge_and_forward b wd s) = pt_done s" "cwd (purge_and_forward b wd s) = cwd s"
  "script (purge_and_forward b wd s) = script s"
  by (simp_all add: purge_and_forward_def Let_def split: sum.splits)

lemma process_batch_frame [simp, pt_simps]:
  "downloaded (process_batch b s) = downloaded s" "pt_done (process_batch b s) = pt_done s"
  "cwd (process_batch b s) = cwd s"
  by (simp_all add: process_batch_def Let_def split: prod.splits option.splits sum.splits)

lemma purge_and_forward_pc [simp]:
  "pc (purge_and_forward b wd s) =
     (case rmtree (cwd s) (input_folder_path b) (files s) of Inl e \<Rightarrow> Raised e | Inr _ \<Rightarrow> pc s)"
  by (simp add: purge_and_forward_def Let_def split: sum.splits)

lemma process_batch_pc:
  "pc (process_batch b s) =
     (case path_resolve (files s) (cwd s) (tmp_dir_name b) of
        Inl e \<Rightarrow> Raised e
      | Inr wd \<Rightarrow>
          (let (r, f) = script s wd (files s) in
           case r of
             None \<Rightarrow> (case rmtree (cwd s) (input_folder_path b) f of Inl e \<Rightarrow> Raised e | Inr _ \<Rightarrow> pc s)
           | Some e \<Rightarrow> if is_Exception e then pc s else Raised e))"
  by (simp add: process_batch_def Let_def split: prod.splits option.splits sum.splits)

lemma process_batch_pc_cases: "pc (process_batch b s) = pc s \<or> (\<exists>e. pc (process_batch b s) = Raised e)"
  by (simp add: process_batch_pc Let_def split: prod.splits option.splits sum.splits)

lemma process_batch_measure: "pc s = Loop_head \<Longrightarrow> pt_measure (process_batch b s) \<le> pt_measure s"
  using process_batch_pc_cases[of b s] by (auto simp: pt_measure_def)

section \<open>Every step decreases the measure\<close>

lemma loop_head_measure: "pc s = Loop_head \<Longrightarrow> pt_measure (loop_head s) < pt_measure s"
  by (simp add: loop_head_def pt_measure_def log_info_def)

lemma take_item_measure:
  assumes "pc s = At_get" and "take_item s = Some s'"
  shows "pt_measure s' < pt_measure s"
proof (cases "wq_get (downloaded s)")
  case None
  with assms show ?thesis by (simp add: take_item_def)
next
  case (Some rq)
  obtain r q where rq: "rq = (r, q)" by fastforce
  from Some rq have g: "wq_get (downloaded s) = Some (r, q)" by simp
  then show ?thesis
  proof (cases rule: wq_get_SomeE)
    case closed
    with assms g have "s' = finish_run (s\<lparr>pt_done := True\<rparr>)"
      by (simp add: take_item_def)
    with closed assms(1) show ?thesis by (simp add: pt_measure_def)
  next
    case (item x)
    let ?t = "s\<lparr>downloaded := q, pc := Loop_head\<rparr>"
    have "pt_measure ?t < pt_measure s"
      using item assms(1) by (simp add: pt_measure_def)
    moreover have "s' = skip_batch ?t \<or> (\<exists>b. s' = process_batch b ?t)"
      using assms(2) Some rq item by (cases x) (auto simp: take_item_def)
    moreover have "pt_measure (skip_batch ?t) = pt_measure ?t"
      by (simp add: pt_measure_def)
    moreover have "pt_measure (process_batch b ?t) \<le> pt_measure ?t" for b
      by (rule process_batch_measure) simp
    ultimately show ?thesis by (metis le_less_trans)
  qed
qed

lemma run_step_measure: "run_step s = Some s' \<Longrightarrow> pt_measure s' < pt_measure s"
  by (cases "pc s") (auto simp: run_step_def loop_head_measure take_item_measure)

section \<open>The loop\<close>

text \<open>\<^verbatim>\<open>run\<close> from a control point, as far as it goes without another thread: until it
  blocks in \<^verbatim>\<open>get\<close> or ends.\<close>

function run_loop :: "processing_thread \<Rightarrow> processing_thread" where
  "run_loop s = (case run_step s of None \<Rightarrow> s | Some s' \<Rightarrow> run_loop s')"
  by pat_completeness auto
termination
  by (relation "measure pt_measure") (auto simp: run_step_measure)

declare run_loop.simps [simp del]

section \<open>The branches of one iteration\<close>

text \<open>The resolution of the working directory the script is run on (line 54).\<close>

abbreviation work_dir :: "processing_thread \<Rightarrow> job_batch \<Rightarrow> exn + path" where
  "work_dir s b \<equiv> path_resolve (files s) (cwd s) (tmp_dir_name b)"

lemma process_batch_success:
  assumes "work_dir s b = Inr wd" and "script s wd (files s) = (None, f1)"
    and "rmtree (cwd s) (input_folder_path b) f1 = Inr f2"
  shows "to_upload (process_batch b s) = wq_put (Some b) (to_upload s)"
    and "files (process_batch b s) = f2"
    and "error_queue (process_batch b s) = error_queue s"
    and "pc (process_batch b s) = pc s"
  using assms by (simp_all add: process_batch_def purge_and_forward_def Let_def)

lemma process_batch_purge_fails:
  assumes "work_dir s b = Inr wd" and "script s wd (files s) = (None, f1)"
    and "rmtree (cwd s) (input_folder_path b) f1 = Inl e"
  shows "to_upload (process_batch b s) = to_upload s"
    and "files (process_batch b s) = f1"
    and "error_queue (process_batch b s) = error_queue s"
    and "pc (process_batch b s) = Raised e"
  using assms by (simp_all add: process_batch_def purge_and_forward_def Let_def)

lemma process_batch_script_exception:
  assumes "work_dir s b = Inr wd" and "script s wd (files s) = (Some e, f1)" and "is_Exception e"
  shows "to_upload (process_batch b s) = wq_put None (to_upload s)"
    and "files (process_batch b s) = f1"
    and "error_queue (process_batch b s) =
           error_queue s @ [\<lparr>fj_batch = b, fj_error = exn_repr e, fj_type = PROCESSING_FAILED\<rparr>]"
    and "pc (process_batch b s) = pc s"
  using assms by (simp_all add: process_batch_def Let_def)

lemma process_batch_script_base_exception:
  assumes "work_dir s b = Inr wd" and "script s wd (files s) = (Some e, f1)" and "\<not> is_Exception e"
  shows "to_upload (process_batch b s) = to_upload s"
    and "files (process_batch b s) = f1"
    and "error_queue (process_batch b s) = error_queue s"
    and "pc (process_batch b s) = Raised e"
  using assms by (simp_all add: process_batch_def Let_def)

lemma process_batch_resolve_fails:
  assumes "work_dir s b = Inl e"
  shows "to_upload (process_batch b s) = to_upload s"
    and "files (process_batch b s) = files s"
    and "error_queue (process_batch b s) = error_queue s"
    and "pc (process_batch b s) = Raised e"
    and "logger (process_batch b s) = logger s @ [Log_info (''Got batch at folder '' @ tmp_dir_name b)]"
  using assms by (simp_all add: process_batch_def Let_def)

lemma process_batch_script [simp]: "script (process_batch b s) = script s"
  by (simp add: process_batch_def purge_and_forward_def Let_def split: prod.splits option.splits sum.splits)

lemma take_item_Cons:
  "wq_items (downloaded s) = x # xs \<Longrightarrow>
   take_item s =
     Some (case x of None \<Rightarrow> skip_batch (s\<lparr>downloaded := (downloaded s)\<lparr>wq_items := xs\<rparr>, pc := Loop_head\<rparr>)
          | Some b \<Rightarrow> process_batch b (s\<lparr>downloaded := (downloaded s)\<lparr>wq_items := xs\<rparr>, pc := Loop_head\<rparr>))"
  by (cases x) (simp_all add: take_item_def)

lemma take_item_closed:
  "wq_items (downloaded s) = [] \<Longrightarrow> wq_closed (downloaded s) \<Longrightarrow>
   take_item s = Some (finish_run (s\<lparr>pt_done := True\<rparr>))"
  by (simp add: take_item_def)

lemma take_item_None_iff: "take_item s = None \<longleftrightarrow> wq_items (downloaded s) = [] \<and> \<not> wq_closed (downloaded s)"
  by (cases "wq_items (downloaded s)") (auto simp: take_item_def split: option.splits)

lemma run_step_None_iff:
  "run_step s = None \<longleftrightarrow>
     (pc s = At_get \<and> wq_items (downloaded s) = [] \<and> \<not> wq_closed (downloaded s)) \<or>
     pc s = Returned \<or> (\<exists>e. pc s = Raised e)"
  by (cases "pc s") (auto simp: run_step_def take_item_None_iff)

lemma take_item_closed_flag:
  "take_item s = Some t \<Longrightarrow> wq_closed (downloaded t) = wq_closed (downloaded s)"
  by (cases "wq_items (downloaded s)")
     (auto simp: take_item_def split: option.splits if_splits)

lemma run_step_closed_flag:
  "run_step s = Some t \<Longrightarrow> wq_closed (downloaded t) = wq_closed (downloaded s)"
  by (cases "pc s") (auto simp: run_step_def loop_head_def take_item_closed_flag split: if_splits)

lemma run_loop_closed_flag: "wq_closed (downloaded (run_loop s)) = wq_closed (downloaded s)"
proof (induction s rule: run_loop.induct)
  case (1 s)
  then show ?case
    by (cases "run_step s") (simp_all add: run_loop.simps run_step_closed_flag)
qed

lemma run_step_run_loop: "run_step (run_loop s) = None"
proof (induction s rule: run_loop.induct)
  case (1 s)
  then show ?case by (cases "run_step s") (simp_all add: run_loop.simps)
qed

text \<open>The iteration started by a \<^verbatim>\<open>get\<close> that returns a batch, by the outcome of the
  script and of the delete.\<close>

lemma take_item_batch:
  "wq_items (downloaded s) = Some b # xs \<Longrightarrow>
   take_item s = Some (process_batch b (s\<lparr>downloaded := (downloaded s)\<lparr>wq_items := xs\<rparr>, pc := Loop_head\<rparr>))"
  by (simp add: take_item_Cons)

text \<open>Whatever it takes off the queue, an iteration ends back at the loop head or with
  an exception, and keeps the working directory and the \<^verbatim>\<open>done\<close> flag.\<close>

lemma take_item_Cons_cases:
  assumes "wq_items (downloaded s) = x # xs" and "take_item s = Some t"
  shows "(pc t = Loop_head \<or> (\<exists>e. pc t = Raised e)) \<and> cwd t = cwd s \<and> pt_done t = pt_done s \<and>
         downloaded t = (downloaded s)\<lparr>wq_items := xs\<rparr>"
proof -
  let ?u = "s\<lparr>downloaded := (downloaded s)\<lparr>wq_items := xs\<rparr>, pc := Loop_head\<rparr>"
  have "t = skip_batch ?u \<or> (\<exists>b. t = process_batch b ?u)"
    using assms by (cases x) (auto simp: take_item_Cons)
  then show ?thesis
  proof
    assume "\<exists>b. t = process_batch b ?u"
    then obtain b where "t = process_batch b ?u" ..
    with process_batch_pc_cases [of b ?u] show ?thesis by auto
  qed simp
qed

section \<open>Properties of run\<close>

text \<open>C6 (termination). Once the download thread has closed \<^verbatim>\<open>downloaded\<close>, \<^verbatim>\<open>run\<close>
  never blocks again: from any control point, the loop runs to its end and the thread
  either returns or ends with an exception.\<close>

theorem run_loop_terminates_on_closed_input:
  assumes "wq_closed (downloaded s)"
  shows "pc (run_loop s) = Returned \<or> (\<exists>e. pc (run_loop s) = Raised e)"
proof -
  have "run_step (run_loop s) = None" by (rule run_step_run_loop)
  moreover have "wq_closed (downloaded (run_loop s))"
    using assms by (simp add: run_loop_closed_flag)
  ultimately show ?thesis by (auto simp: run_step_None_iff)
qed


text \<open>C8 (error). A batch whose script raises an \<^verbatim>\<open>Exception\<close>: a skip marker goes to
  \<^verbatim>\<open>to_upload\<close> in its place, exactly one failure record of kind
  \<open>PROCESSING_FAILED\<close> with the exception's \<^verbatim>\<open>repr\<close> goes to the error queue and is
  logged, the file system is left as the script left it (the input folder is not
  deleted), and the loop goes on.\<close>

theorem run_step_script_exception:
  assumes "pc s = At_get" "wq_items (downloaded s) = Some b # xs"
    and "work_dir s b = Inr wd" and "script s wd (files s) = (Some e, f1)" and "is_Exception e"
  shows "\<exists>t. run_step s = Some t \<and> pc t = Loop_head \<and> wq_items (downloaded t) = xs \<and>
             wq_items (to_upload t) = wq_items (to_upload s) @ [None] \<and>
             error_queue t = error_queue s @ [\<lparr>fj_batch = b, fj_error = exn_repr e, fj_type = PROCESSING_FAILED\<rparr>] \<and>
             last (logger t) = Log_error \<lparr>fj_batch = b, fj_error = exn_repr e, fj_type = PROCESSING_FAILED\<rparr> \<and>
             files t = f1"
proof -
  let ?u = "s\<lparr>downloaded := (downloaded s)\<lparr>wq_items := xs\<rparr>, pc := Loop_head\<rparr>"
  have wd: "work_dir ?u b = Inr wd" and sc: "script ?u wd (files ?u) = (Some e, f1)"
    using assms(3,4) by simp_all
  have "run_step s = Some (process_batch b ?u)"
    using assms(1,2) by (simp add: run_step_def take_item_batch)
  moreover have "last (logger (process_batch b ?u)) =
      Log_error \<lparr>fj_batch = b, fj_error = exn_repr e, fj_type = PROCESSING_FAILED\<rparr>"
    using wd sc assms(5) by (simp add: process_batch_def script_failed_def Let_def)
  ultimately show ?thesis
    using process_batch_script_exception [OF wd sc assms(5)] by simp
qed

text \<open>C9 (functional). A skip marker on \<^verbatim>\<open>downloaded\<close> is forwarded as a skip marker
  without running the script: the file system and the error queue are unchanged.\<close>

theorem run_step_skip_marker:
  assumes "pc s = At_get" "wq_items (downloaded s) = None # xs"
  shows "\<exists>t. run_step s = Some t \<and> pc t = Loop_head \<and> wq_items (downloaded t) = xs \<and>
             wq_items (to_upload t) = wq_items (to_upload s) @ [None] \<and>
             error_queue t = error_queue s \<and> files t = files s"
  using assms by (simp add: run_step_def take_item_Cons)

text \<open>C10 (functional). When \<^verbatim>\<open>get\<close> finds \<^verbatim>\<open>downloaded\<close> closed and drained, it raises
  \<open>ClosedException\<close>; the thread sets \<^verbatim>\<open>done\<close>, leaves the loop, closes
  \<^verbatim>\<open>to_upload\<close> without adding to it, and returns.\<close>

theorem run_step_closed_input:
  assumes "pc s = At_get" "wq_items (downloaded s) = []" "wq_closed (downloaded s)"
  shows "\<exists>t. run_step s = Some t \<and> pc t = Returned \<and> pt_done t \<and> wq_closed (to_upload t) \<and>
             wq_items (to_upload t) = wq_items (to_upload s) \<and> run_step t = None"
  using assms by (simp add: run_step_def take_item_closed)

text \<open>C13 (error). If the script succeeds but the input folder is not a directory (it is
  missing, it is a file, or it is a symbolic link, which \<^verbatim>\<open>rmtree\<close> refuses), the
  exception of \<^verbatim>\<open>rmtree\<close> ends the thread: it is one of the errors \<^verbatim>\<open>rmtree\<close>
  raises for the input folder (\<open>rm_error\<close>: a lookup error or \<open>NotADirectoryError\<close>
  with the folder as file name, or the file-name-less \<^verbatim>\<open>OSError\<close> refusing a link), and
  the batch it took off \<^verbatim>\<open>downloaded\<close> gets no output slot at all, neither the batch nor
  a skip marker.\<close>

theorem run_step_purge_failure:
  assumes "pc s = At_get" "wq_items (downloaded s) = Some b # xs"
    and "work_dir s b = Inr wd" and "script s wd (files s) = (None, f1)"
    and "\<not> (\<exists>a. lstat_path f1 (cwd s) (input_folder_path b) = Inr a \<and> f1 a = Some Dir)"
  shows "\<exists>t e. run_step s = Some t \<and> pc t = Raised e \<and> rm_error (input_folder_path b) e \<and>
               run_step t = None \<and> wq_items (downloaded t) = xs \<and> to_upload t = to_upload s \<and>
               error_queue t = error_queue s"
proof -
  let ?u = "s\<lparr>downloaded := (downloaded s)\<lparr>wq_items := xs\<rparr>, pc := Loop_head\<rparr>"
  obtain e where rm: "rmtree (cwd ?u) (input_folder_path b) f1 = Inl e"
    using assms(5) by (cases "rmtree (cwd s) (input_folder_path b) f1") (auto simp: rmtree_Inr_iff)
  have wd: "work_dir ?u b = Inr wd" and sc: "script ?u wd (files ?u) = (None, f1)"
    using assms(3,4) by simp_all
  have "run_step s = Some (process_batch b ?u)"
    using assms(1,2) by (simp add: run_step_def take_item_batch)
  with process_batch_purge_fails [OF wd sc rm] rmtree_Inl_rm_error [OF rm] show ?thesis
    by (simp add: run_step_def)
qed

text \<open>C14 (error). A script that raises a \<^verbatim>\<open>BaseException\<close> that is not an
  \<^verbatim>\<open>Exception\<close> is not caught by \<^verbatim>\<open>except Exception\<close>: the thread ends with it,
  writes no failure record and forwards nothing for the batch.\<close>

theorem run_step_base_exception:
  assumes "pc s = At_get" "wq_items (downloaded s) = Some b # xs"
    and "work_dir s b = Inr wd" and "script s wd (files s) = (Some e, f1)" and "\<not> is_Exception e"
  shows "\<exists>t. run_step s = Some t \<and> pc t = Raised e \<and> run_step t = None \<and>
             to_upload t = to_upload s \<and> error_queue t = error_queue s"
proof -
  let ?u = "s\<lparr>downloaded := (downloaded s)\<lparr>wq_items := xs\<rparr>, pc := Loop_head\<rparr>"
  have wd: "work_dir ?u b = Inr wd" and sc: "script ?u wd (files ?u) = (Some e, f1)"
    using assms(3,4) by simp_all
  have "run_step s = Some (process_batch b ?u)"
    using assms(1,2) by (simp add: run_step_def take_item_batch)
  with process_batch_script_base_exception [OF wd sc assms(5)] show ?thesis
    by (simp add: run_step_def)
qed


text \<open>C16 (functional). The log of one iteration over a batch whose script succeeds,
  from the loop head: the four \<^verbatim>\<open>info\<close> lines of lines 42, 53, 57 and 69--71, in
  this order, with the batch's folder name and the resolved working directory.\<close>

theorem iteration_log_success:
  assumes "pc s = Loop_head" "\<not> pt_done s" "wq_items (downloaded s) = Some b # xs"
    and "work_dir s b = Inr wd" and "script s wd (files s) = (None, f1)"
  shows "\<exists>s1 s2. run_step s = Some s1 \<and> run_step s1 = Some s2 \<and>
           logger s2 = logger s @
             [Log_info ''Waiting for next batch to process'',
              Log_info (''Got batch at folder '' @ tmp_dir_name b),
              Log_info (''Running script on '' @ path_str wd),
              Log_info (''Finished running script on '' @ path_str wd @ '', removing input'')]"
  using assms
  by (simp add: run_step_def loop_head_def loop_guard_def take_item_batch process_batch_def
      purge_and_forward_def Let_def split: sum.splits)

text \<open>C17 (error). The log of one iteration over a batch whose script raises an
  \<^verbatim>\<open>Exception\<close>: the failure is logged (line 64) after the two \<^verbatim>\<open>info\<close> lines, and
  the record logged is the very record put on the error queue (line 65).\<close>

theorem iteration_log_failure:
  assumes "pc s = Loop_head" "\<not> pt_done s" "wq_items (downloaded s) = Some b # xs"
    and "work_dir s b = Inr wd" and "script s wd (files s) = (Some e, f1)" and "is_Exception e"
  shows "\<exists>s1 s2 r. run_step s = Some s1 \<and> run_step s1 = Some s2 \<and>
           error_queue s2 = error_queue s @ [r] \<and>
           logger s2 = logger s @
             [Log_info ''Waiting for next batch to process'',
              Log_info (''Got batch at folder '' @ tmp_dir_name b),
              Log_info (''Running script on '' @ path_str wd),
              Log_error r] \<and>
           fj_batch r = b \<and> fj_error r = exn_repr e \<and> fj_type r = PROCESSING_FAILED"
  using assms
  by (simp add: run_step_def loop_head_def loop_guard_def take_item_batch process_batch_def
      script_failed_def Let_def)

text \<open>C21 (type). Every step of \<^verbatim>\<open>run\<close> keeps the thread state well-formed: the
  working directory stays a resolved path, \<^verbatim>\<open>done\<close> stays unset inside the loop, and
  the thread returns only with \<^verbatim>\<open>done\<close> set, \<^verbatim>\<open>to_upload\<close> closed and the final log
  line written.\<close>

theorem run_step_thread_wf:
  assumes "thread_wf s" and "run_step s = Some t"
  shows "thread_wf t"
proof (cases "pc s")
  case Loop_head
  then have t: "t = loop_head s" using assms(2) by (simp add: run_step_def)
  show ?thesis
  proof (cases "loop_guard s")
    case True
    with t assms(1) Loop_head show ?thesis by (simp add: loop_head_def thread_wf_def)
  next
    case False
    then have "pt_done s" by (simp add: loop_guard_def)
    with t False assms(1) show ?thesis by (simp add: loop_head_def thread_wf_def)
  qed
next
  case At_get
  then have t: "take_item s = Some t" using assms(2) by (simp add: run_step_def)
  show ?thesis
  proof (cases "wq_items (downloaded s)")
    case Nil
    with t have "t = finish_run (s\<lparr>pt_done := True\<rparr>)"
      by (simp add: take_item_def split: if_splits)
    with assms(1) show ?thesis by (simp add: thread_wf_def)
  next
    case (Cons x xs)
    from take_item_Cons_cases [OF Cons t] assms(1) At_get show ?thesis
      by (auto simp: thread_wf_def)
  qed
qed (use assms in \<open>simp_all add: run_step_def\<close>)

end
