(* ===== verification/Stage_Spec.thy ===== *)
theory Stage_Spec
  imports Processing_Thread
begin

text \<open>
  What the processing stage promises (spec sections 4.2 and 8), as a function of the
  list of inputs, with the loop mechanics of \<^verbatim>\<open>run\<close> (the guard, the \<^verbatim>\<open>done\<close> flag,
  the blocking \<^verbatim>\<open>get\<close>, the closing of the output) abstracted away: each input
  becomes exactly one output, in order; a skip marker stays a skip marker; a batch
  whose script fails becomes a skip marker and one failure record; a batch whose
  script succeeds has its input folder deleted and is forwarded. An exception that
  the code does not catch ends the stage. The refinement theorem shows that
  \<open>run_loop\<close>, started at the loop head on a closed input queue, computes exactly this.
\<close>

definition failure_record :: "job_batch \<Rightarrow> exn \<Rightarrow> failed_job_batch" where
  "failure_record b e = \<lparr>fj_batch = b, fj_error = exn_repr e, fj_type = PROCESSING_FAILED\<rparr>"

text \<open>The outcome of one input: the exception that ends the stage with the file system it
  leaves, or the output slot, the failure records and the new file system.\<close>

fun process_item ::
  "script \<Rightarrow> path \<Rightarrow> fs \<Rightarrow> item \<Rightarrow> (exn \<times> fs) + (item \<times> failed_job_batch list \<times> fs)" where
  "process_item sc d f None = Inr (None, [], f)"
| "process_item sc d f (Some b) =
     (case path_resolve f d (tmp_dir_name b) of
        Inl e \<Rightarrow> Inl (e, f)
      | Inr wd \<Rightarrow>
          (case sc wd f of
             (Some e, f1) \<Rightarrow> if is_Exception e then Inr (None, [failure_record b e], f1) else Inl (e, f1)
           | (None, f1) \<Rightarrow>
               (case rmtree d (input_folder_path b) f1 of
                  Inl e \<Rightarrow> Inl (e, f1)
                | Inr f2 \<Rightarrow> Inr (Some b, [], f2))))"

text \<open>The whole stage: outputs, failure records, final file system, and the exception
  that ended it, if any.\<close>

fun process_all ::
  "script \<Rightarrow> path \<Rightarrow> fs \<Rightarrow> item list \<Rightarrow> item list \<times> failed_job_batch list \<times> fs \<times> exn option" where
  "process_all sc d f [] = ([], [], f, None)"
| "process_all sc d f (x # xs) =
     (case process_item sc d f x of
        Inl (e, f') \<Rightarrow> ([], [], f', Some e)
      | Inr (y, es, f') \<Rightarrow>
          (case process_all sc d f' xs of (ys, es', f'', r) \<Rightarrow> (y # ys, es @ es', f'', r)))"

text \<open>An output slot fits its input: a skip marker, or the input itself.\<close>

definition slot_ok :: "item \<Rightarrow> item \<Rightarrow> bool" where
  "slot_ok x y \<longleftrightarrow> y = None \<or> y = x"

text \<open>The batches that went in and came out as skip markers.\<close>

fun failed_batches :: "item list \<Rightarrow> item list \<Rightarrow> job_batch list" where
  "failed_batches (Some b # xs) (None # ys) = b # failed_batches xs ys"
| "failed_batches (_ # xs) (_ # ys) = failed_batches xs ys"
| "failed_batches _ _ = []"

text \<open>The exceptions an input can end the stage with: those of \<^verbatim>\<open>Path.resolve\<close>
  (\<open>resolve_error\<close>), those of \<^verbatim>\<open>rmtree\<close> on the batch's input folder (\<open>rm_error\<close>), or a
  \<^verbatim>\<open>BaseException\<close> of the script. A skip marker ends nothing.\<close>

fun crash_by :: "exn \<Rightarrow> item \<Rightarrow> bool" where
  "crash_by e (Some b) \<longleftrightarrow>
     resolve_error e \<or> rm_error (input_folder_path b) e \<or> \<not> is_Exception e"
| "crash_by e None \<longleftrightarrow> False"

text \<open>\<^verbatim>\<open>run\<close> from a fresh thread whose input queue already holds \<open>xs\<close> and is closed.\<close>

abbreviation run_on :: "script \<Rightarrow> fs \<Rightarrow> path \<Rightarrow> item list \<Rightarrow> processing_thread" where
  "run_on sc f d xs \<equiv> run_loop (init_thread \<lparr>wq_items = xs, wq_closed = True\<rparr> wq_new [] sc f d)"

section \<open>One iteration implements one input\<close>

lemma run_loop_step: "run_step s = Some s' \<Longrightarrow> run_loop s = run_loop s'"
  by (simp add: run_loop.simps)

lemma run_loop_stop: "run_step s = None \<Longrightarrow> run_loop s = s"
  by (simp add: run_loop.simps)

lemma process_batch_Inr:
  assumes "process_item (script s) (cwd s) (files s) (Some b) = Inr (y, es, f')"
  shows "pc (process_batch b s) = pc s \<and> to_upload (process_batch b s) = wq_put y (to_upload s) \<and>
         error_queue (process_batch b s) = error_queue s @ es \<and> files (process_batch b s) = f'"
proof -
  obtain wd where wd: "work_dir s b = Inr wd"
    using assms by (auto split: sum.splits)
  show ?thesis
  proof (cases "script s wd (files s)")
    case (Pair r f1)
    show ?thesis
    proof (cases r)
      case None
      with wd Pair assms obtain f2 where "rmtree (cwd s) (input_folder_path b) f1 = Inr f2"
        "y = Some b" "es = []" "f' = f2"
        by (auto split: sum.splits)
      with wd Pair None show ?thesis by (simp add: process_batch_success)
    next
      case (Some e)
      with wd Pair assms have "is_Exception e" "y = None" "es = [failure_record b e]" "f' = f1"
        by (auto split: if_splits)
      with wd Pair Some show ?thesis
        by (simp add: process_batch_script_exception failure_record_def)
    qed
  qed
qed

lemma process_batch_Inl:
  assumes "process_item (script s) (cwd s) (files s) (Some b) = Inl (e, f')"
  shows "pc (process_batch b s) = Raised e \<and> to_upload (process_batch b s) = to_upload s \<and>
         error_queue (process_batch b s) = error_queue s \<and> files (process_batch b s) = f'"
proof (cases "work_dir s b")
  case (Inl e')
  with assms show ?thesis by (simp add: process_batch_resolve_fails)
next
  case (Inr wd)
  show ?thesis
  proof (cases "script s wd (files s)")
    case (Pair r f1)
    show ?thesis
    proof (cases r)
      case None
      with Inr Pair assms have "rmtree (cwd s) (input_folder_path b) f1 = Inl e" "f' = f1"
        by (auto split: sum.splits)
      with Inr Pair None show ?thesis by (simp add: process_batch_purge_fails)
    next
      case (Some e')
      with Inr Pair assms have "\<not> is_Exception e" "e' = e" "f' = f1"
        by (auto split: if_splits)
      with Inr Pair Some show ?thesis by (simp add: process_batch_script_base_exception)
    qed
  qed
qed

text \<open>The loop head on a non-empty queue with \<^verbatim>\<open>done\<close> unset enters the body.\<close>

lemma loop_head_enter:
  "\<not> pt_done s \<Longrightarrow> loop_head s = (log_info ''Waiting for next batch to process'' s)\<lparr>pc := At_get\<rparr>"
  by (simp add: loop_head_def loop_guard_def)

text \<open>The \<^verbatim>\<open>get\<close> of an input and the rest of its iteration.\<close>

lemma take_item_Inr:
  assumes "wq_items (downloaded s) = x # xs"
    and "process_item (script s) (cwd s) (files s) x = Inr (y, es, f')"
  shows "\<exists>t. take_item s = Some t \<and> pc t = Loop_head \<and> pt_done t = pt_done s \<and>
             downloaded t = (downloaded s)\<lparr>wq_items := xs\<rparr> \<and> to_upload t = wq_put y (to_upload s) \<and>
             error_queue t = error_queue s @ es \<and> files t = f' \<and> script t = script s \<and> cwd t = cwd s"
proof -
  let ?u = "s\<lparr>downloaded := (downloaded s)\<lparr>wq_items := xs\<rparr>, pc := Loop_head\<rparr>"
  let ?t = "case x of None \<Rightarrow> skip_batch ?u | Some b \<Rightarrow> process_batch b ?u"
  have "take_item s = Some ?t"
    using assms(1) by (simp add: take_item_Cons)
  moreover have "pc ?t = Loop_head \<and> to_upload ?t = wq_put y (to_upload s) \<and>
                 error_queue ?t = error_queue s @ es \<and> files ?t = f'"
  proof (cases x)
    case None
    with assms(2) show ?thesis by simp
  next
    case (Some b)
    with assms(2) have "process_item (script ?u) (cwd ?u) (files ?u) (Some b) = Inr (y, es, f')"
      by simp
    from process_batch_Inr [OF this] Some show ?thesis by simp
  qed
  moreover have "pt_done ?t = pt_done s \<and> downloaded ?t = (downloaded s)\<lparr>wq_items := xs\<rparr> \<and>
                 script ?t = script s \<and> cwd ?t = cwd s"
    by (cases x) simp_all
  ultimately show ?thesis by blast
qed

lemma take_item_Inl:
  assumes "wq_items (downloaded s) = x # xs"
    and "process_item (script s) (cwd s) (files s) x = Inl (e, f')"
  shows "\<exists>t. take_item s = Some t \<and> pc t = Raised e \<and> downloaded t = (downloaded s)\<lparr>wq_items := xs\<rparr> \<and>
             to_upload t = to_upload s \<and> error_queue t = error_queue s \<and> files t = f'"
proof -
  obtain b where x: "x = Some b"
    using assms(2) by (cases x) auto
  let ?u = "s\<lparr>downloaded := (downloaded s)\<lparr>wq_items := xs\<rparr>, pc := Loop_head\<rparr>"
  have "take_item s = Some (process_batch b ?u)"
    using assms(1) x by (simp add: take_item_Cons)
  moreover have "pc (process_batch b ?u) = Raised e \<and> to_upload (process_batch b ?u) = to_upload s \<and>
                 error_queue (process_batch b ?u) = error_queue s \<and> files (process_batch b ?u) = f'"
    using process_batch_Inl [of ?u b e f'] assms(2) x by simp
  ultimately show ?thesis by simp
qed

text \<open>A step of \<^verbatim>\<open>run\<close> keeps the script and the working directory.\<close>

lemma take_item_frame: "take_item s = Some t \<Longrightarrow> script t = script s \<and> cwd t = cwd s"
  by (cases "wq_items (downloaded s)")
     (auto simp: take_item_def split: option.splits if_splits sum.splits)

lemma run_step_frame: "run_step s = Some t \<Longrightarrow> script t = script s \<and> cwd t = cwd s"
  by (cases "pc s") (auto simp: run_step_def loop_head_def take_item_frame)

text \<open>A whole iteration, from the loop head.\<close>

lemma iteration_Inr:
  assumes "pc s = Loop_head" "\<not> pt_done s" "wq_items (downloaded s) = x # xs"
    and "process_item (script s) (cwd s) (files s) x = Inr (y, es, f')"
  shows "\<exists>t. run_loop s = run_loop t \<and> pc t = Loop_head \<and> \<not> pt_done t \<and>
             downloaded t = (downloaded s)\<lparr>wq_items := xs\<rparr> \<and> to_upload t = wq_put y (to_upload s) \<and>
             error_queue t = error_queue s @ es \<and> files t = f' \<and> script t = script s \<and> cwd t = cwd s"
proof -
  let ?s1 = "(log_info ''Waiting for next batch to process'' s)\<lparr>pc := At_get\<rparr>"
  have s1: "run_step s = Some ?s1"
    using assms(1,2) by (simp add: run_step_def loop_head_enter)
  from assms(2-4) take_item_Inr [of ?s1 x xs y es f'] obtain t where
    "take_item ?s1 = Some t" "pc t = Loop_head" "\<not> pt_done t"
    "downloaded t = (downloaded s)\<lparr>wq_items := xs\<rparr>" "to_upload t = wq_put y (to_upload s)"
    "error_queue t = error_queue s @ es" "files t = f'" "script t = script s" "cwd t = cwd s"
    by auto
  moreover from \<open>take_item ?s1 = Some t\<close> have "run_step ?s1 = Some t"
    by (simp add: run_step_def)
  with s1 have "run_loop s = run_loop t"
    by (simp add: run_loop_step)
  ultimately show ?thesis by blast
qed

lemma iteration_Inl:
  assumes "pc s = Loop_head" "\<not> pt_done s" "wq_items (downloaded s) = x # xs"
    and "process_item (script s) (cwd s) (files s) x = Inl (e, f')"
  shows "pc (run_loop s) = Raised e \<and> to_upload (run_loop s) = to_upload s \<and>
         error_queue (run_loop s) = error_queue s \<and> files (run_loop s) = f'"
proof -
  let ?s1 = "(log_info ''Waiting for next batch to process'' s)\<lparr>pc := At_get\<rparr>"
  have s1: "run_step s = Some ?s1"
    using assms(1,2) by (simp add: run_step_def loop_head_enter)
  from assms(3,4) take_item_Inl [of ?s1 x xs e f'] obtain t where t:
    "take_item ?s1 = Some t" "pc t = Raised e" "to_upload t = to_upload s"
    "error_queue t = error_queue s" "files t = f'"
    by auto
  then have "run_step ?s1 = Some t" "run_step t = None"
    by (simp_all add: run_step_def)
  with s1 t show ?thesis
    by (simp add: run_loop_step run_loop_stop)
qed

lemma run_loop_closed_drained:
  assumes "pc s = Loop_head" "\<not> pt_done s" "wq_items (downloaded s) = []" "wq_closed (downloaded s)"
  shows "run_loop s = finish_run (((log_info ''Waiting for next batch to process'' s)\<lparr>pc := At_get\<rparr>)
                                    \<lparr>pt_done := True\<rparr>)"
proof -
  let ?s1 = "(log_info ''Waiting for next batch to process'' s)\<lparr>pc := At_get\<rparr>"
  have "run_step s = Some ?s1"
    using assms(1,2) by (simp add: run_step_def loop_head_enter)
  moreover have "run_step ?s1 = Some (finish_run (?s1\<lparr>pt_done := True\<rparr>))"
    using assms(3,4) by (simp add: run_step_def take_item_closed)
  moreover have "run_step (finish_run (?s1\<lparr>pt_done := True\<rparr>)) = None"
    by (simp add: run_step_def)
  ultimately show ?thesis
    by (simp add: run_loop_step run_loop_stop)
qed

section \<open>Refinement\<close>

text \<open>The stage's result as the thread leaves it, for the inputs of a closed queue.\<close>

lemma run_loop_process_all:
  assumes "pc s = Loop_head" "\<not> pt_done s" "wq_items (downloaded s) = xs" "wq_closed (downloaded s)"
    and "process_all (script s) (cwd s) (files s) xs = (ys, es, f, r)"
  shows "wq_items (to_upload (run_loop s)) = wq_items (to_upload s) @ ys \<and>
         error_queue (run_loop s) = error_queue s @ es \<and> files (run_loop s) = f \<and>
         pc (run_loop s) = (case r of None \<Rightarrow> Returned | Some e \<Rightarrow> Raised e) \<and>
         wq_closed (to_upload (run_loop s)) = (r = None \<or> wq_closed (to_upload s))"
  using assms
proof (induction xs arbitrary: s ys es f r)
  case Nil
  then show ?case by (simp add: run_loop_closed_drained)
next
  case (Cons x xs)
  show ?case
  proof (cases "process_item (script s) (cwd s) (files s) x")
    case (Inl ef)
    obtain e f' where ef: "ef = (e, f')" by fastforce
    with Inl Cons.prems(5) have "ys = []" "es = []" "f = f'" "r = Some e"
      by simp_all
    with iteration_Inl [OF Cons.prems(1-3)] Inl ef show ?thesis by simp
  next
    case (Inr yef)
    obtain y es1 f' where yef: "yef = (y, es1, f')" by (cases yef) fastforce
    obtain ys' es' f'' r' where rest: "process_all (script s) (cwd s) f' xs = (ys', es', f'', r')"
      by (cases "process_all (script s) (cwd s) f' xs") fastforce
    from Cons.prems(5) Inr yef rest have res: "ys = y # ys'" "es = es1 @ es'" "f = f''" "r = r'"
      by simp_all
    from iteration_Inr [OF Cons.prems(1-3)] Inr yef obtain t where t:
      "run_loop s = run_loop t" "pc t = Loop_head" "\<not> pt_done t"
      "downloaded t = (downloaded s)\<lparr>wq_items := xs\<rparr>" "to_upload t = wq_put y (to_upload s)"
      "error_queue t = error_queue s @ es1" "files t = f'" "script t = script s" "cwd t = cwd s"
      by blast
    have "process_all (script t) (cwd t) (files t) xs = (ys', es', f'', r')"
      using rest t by simp
    from Cons.IH [OF t(2,3) _ _ this] t(4) Cons.prems(4)
    have "wq_items (to_upload (run_loop t)) = wq_items (to_upload t) @ ys' \<and>
          error_queue (run_loop t) = error_queue t @ es' \<and> files (run_loop t) = f'' \<and>
          pc (run_loop t) = (case r' of None \<Rightarrow> Returned | Some e \<Rightarrow> Raised e) \<and>
          wq_closed (to_upload (run_loop t)) = (r' = None \<or> wq_closed (to_upload t))"
      by simp
    with t res show ?thesis by simp
  qed
qed

lemma process_item_Inr_slot:
  assumes "process_item sc d f x = Inr (y, es, f')"
  shows "slot_ok x y \<and> map fj_batch es = (case x of Some b \<Rightarrow> if y = None then [b] else [] | None \<Rightarrow> []) \<and>
         list_all (\<lambda>r. fj_type r = PROCESSING_FAILED) es"
proof (cases x)
  case None
  with assms show ?thesis by (simp add: slot_ok_def)
next
  case (Some b)
  with assms show ?thesis
    by (auto simp: slot_ok_def failure_record_def split: prod.splits option.splits if_splits sum.splits)
qed

lemma failed_batches_Cons:
  "failed_batches (x # xs) (y # ys) =
     (case x of Some b \<Rightarrow> if y = None then [b] else [] | None \<Rightarrow> []) @ failed_batches xs ys"
  by (cases x; cases y) simp_all

lemma process_all_slots:
  assumes "process_all sc d f xs = (ys, es, f', None)"
  shows "list_all2 slot_ok xs ys \<and> map fj_batch es = failed_batches xs ys \<and>
         list_all (\<lambda>r. fj_type r = PROCESSING_FAILED) es"
  using assms
proof (induction xs arbitrary: f ys es)
  case (Cons x xs)
  then obtain y es1 f1 ys' es' where
    item: "process_item sc d f x = Inr (y, es1, f1)" and
    rest: "process_all sc d f1 xs = (ys', es', f', None)" and
    res: "ys = y # ys'" "es = es1 @ es'"
    by (auto split: sum.splits prod.splits)
  from Cons.IH [OF rest] process_item_Inr_slot [OF item] res show ?case
    by (simp add: failed_batches_Cons)
qed simp

text \<open>The specification, one input further.\<close>

lemma process_all_snoc:
  "process_all sc d f xs = (ys, es, f1, None) \<Longrightarrow>
   process_all sc d f (xs @ [x]) =
     (case process_item sc d f1 x of
        Inl (e, f2) \<Rightarrow> (ys, es, f2, Some e)
      | Inr (y, es1, f2) \<Rightarrow> (ys @ [y], es @ es1, f2, None))"
proof (induction xs arbitrary: f ys es)
  case Nil
  then show ?case by (simp split: sum.splits prod.splits)
next
  case (Cons a xs)
  then obtain y0 es0 f0 ys' es' where a: "process_item sc d f a = Inr (y0, es0, f0)"
    and r: "process_all sc d f0 xs = (ys', es', f1, None)" and res: "ys = y0 # ys'" "es = es0 @ es'"
    by (auto split: sum.splits prod.splits)
  with Cons.IH [OF r] show ?case by (simp split: sum.splits prod.splits)
qed

text \<open>Once an input has ended the stage, later inputs change nothing.\<close>

lemma process_all_append_Some:
  "process_all sc d f xs = (ys, es, f', Some e) \<Longrightarrow> process_all sc d f (xs @ zs) = (ys, es, f', Some e)"
proof (induction xs arbitrary: f ys es)
  case (Cons a xs)
  then show ?case by (auto split: sum.splits prod.splits)
qed simp

lemma process_item_Inl_crash:
  assumes "process_item sc d f x = Inl (e, f')"
  shows "crash_by e x"
proof (cases x)
  case None
  with assms show ?thesis by simp
next
  case (Some b)
  with assms show ?thesis
    by (auto dest: rmtree_Inl_rm_error path_resolve_Inl split: prod.splits option.splits if_splits sum.splits)
qed

lemma failed_batches_append_left:
  "length ys \<le> length xs \<Longrightarrow> failed_batches (xs @ zs) ys = failed_batches xs ys"
  by (induction xs ys rule: failed_batches.induct) auto

lemma length_failed_batches: "length (failed_batches xs ys) \<le> length ys"
  by (induction xs ys rule: failed_batches.induct) simp_all

section \<open>The stage implements its specification\<close>

lemma run_on_process_all:
  assumes "process_all sc d f xs = (ys, es, f', r)"
  shows "wq_items (to_upload (run_on sc f d xs)) = ys \<and> error_queue (run_on sc f d xs) = es \<and>
         files (run_on sc f d xs) = f' \<and>
         pc (run_on sc f d xs) = (case r of None \<Rightarrow> Returned | Some e \<Rightarrow> Raised e) \<and>
         wq_closed (to_upload (run_on sc f d xs)) = (r = None)"
  using run_loop_process_all [of "init_thread \<lparr>wq_items = xs, wq_closed = True\<rparr> wq_new [] sc f d"] assms
  by (simp add: init_thread_def)

text \<open>C1 (refinement). The processing thread, run on a closed input queue holding
  \<open>xs\<close>, computes the stage's specification \<open>process_all\<close>: its output queue holds the
  specified outputs, its error queue the specified failure records, the file system is
  the specified one, and the thread returns and closes its output exactly when no
  uncaught exception ended it.\<close>

theorem run_implements_spec:
  assumes "process_all sc d f xs = (ys, es, f', r)"
  shows "wq_items (to_upload (run_on sc f d xs)) = ys \<and> error_queue (run_on sc f d xs) = es \<and>
         files (run_on sc f d xs) = f' \<and>
         pc (run_on sc f d xs) = (case r of None \<Rightarrow> Returned | Some e \<Rightarrow> Raised e) \<and>
         wq_closed (to_upload (run_on sc f d xs)) = (r = None)"
  using assms by (rule run_on_process_all)

text \<open>C2 (functional). When the thread returns, every input has exactly one output in the
  same position, the input itself or a skip marker, a skip marker stays a skip marker,
  and the failure records are exactly one per batch turned into a skip marker, in
  order, all of kind \<open>PROCESSING_FAILED\<close>.\<close>

theorem run_one_output_per_input:
  assumes "pc (run_on sc f d xs) = Returned"
  shows "list_all2 slot_ok xs (wq_items (to_upload (run_on sc f d xs))) \<and>
         map fj_batch (error_queue (run_on sc f d xs)) = failed_batches xs (wq_items (to_upload (run_on sc f d xs))) \<and>
         list_all (\<lambda>r. fj_type r = PROCESSING_FAILED) (error_queue (run_on sc f d xs))"
proof -
  obtain ys es f' r where pa: "process_all sc d f xs = (ys, es, f', r)"
    by (cases "process_all sc d f xs") auto
  from run_on_process_all [OF pa] assms have "r = None"
    by (cases r) simp_all
  with pa process_all_slots [of sc d f xs ys es f'] run_on_process_all [OF pa] show ?thesis
    by simp
qed

end
