(* ===== verification/Pipeline.thy ===== *)
theory Pipeline
  imports Stage_Spec "HOL-Library.Multiset"
begin

text \<open>
  The processing thread inside the running pipeline (spec sections 5 and 6). The other
  threads touch only the queues: the download thread puts items on \<^verbatim>\<open>downloaded\<close> and
  closes it (never putting after the close), and for a batch it could not download
  puts a \<open>DOWNLOAD_FAILED\<close> record on the shared error queue and a skip marker on
  \<^verbatim>\<open>downloaded\<close>; the upload thread takes items off \<^verbatim>\<open>to_upload\<close>; a reporter takes
  records off the error queue. Any interleaving of their steps with the steps of
  \<^verbatim>\<open>run\<close> is a run of the step relation \<open>pipe_step\<close>. Four ghost lists record what
  crossed the boundary: the items sent by the download thread, the items received by
  the upload thread, the records reported, and the records of the download thread; a
  ghost field keeps the file system the pipeline started with.
\<close>

record pipeline =
  proc :: processing_thread
  sent :: "item list"
  received :: "item list"
  reported :: "failed_job_batch list"
  dl_failed :: "failed_job_batch list"
  fs0 :: fs

definition pipe_init :: "script \<Rightarrow> fs \<Rightarrow> path \<Rightarrow> pipeline" where
  "pipe_init sc f d =
     \<lparr>proc = init_thread wq_new wq_new [] sc f d, sent = [], received = [], reported = [],
      dl_failed = [], fs0 = f\<rparr>"

text \<open>The steps of the other threads (spec section 6): the download thread puts an item,
  reports a batch it could not download, or closes \<^verbatim>\<open>downloaded\<close>; the upload thread takes an item off \<^verbatim>\<open>to_upload\<close>
  (blocking while it is empty and open); the reporter takes a record off the error
  queue.\<close>

definition put_input :: "item \<Rightarrow> pipeline \<Rightarrow> pipeline" where
  "put_input x p =
     p\<lparr>proc := (proc p)\<lparr>downloaded := wq_put x (downloaded (proc p))\<rparr>, sent := sent p @ [x]\<rparr>"

definition fail_input :: "failed_job_batch \<Rightarrow> pipeline \<Rightarrow> pipeline" where
  "fail_input r p =
     p\<lparr>proc := (proc p)\<lparr>error_queue := error_queue (proc p) @ [r],
                        downloaded := wq_put None (downloaded (proc p))\<rparr>,
       sent := sent p @ [None], dl_failed := dl_failed p @ [r]\<rparr>"

definition close_input :: "pipeline \<Rightarrow> pipeline" where
  "close_input p = p\<lparr>proc := (proc p)\<lparr>downloaded := wq_close (downloaded (proc p))\<rparr>\<rparr>"

definition take_output :: "pipeline \<Rightarrow> pipeline option" where
  "take_output p =
     (case wq_get (to_upload (proc p)) of
        Some (Inr y, q) \<Rightarrow> Some (p\<lparr>proc := (proc p)\<lparr>to_upload := q\<rparr>, received := received p @ [y]\<rparr>)
      | _ \<Rightarrow> None)"

definition report_error :: "pipeline \<Rightarrow> pipeline option" where
  "report_error p =
     (case error_queue (proc p) of
        r # rs \<Rightarrow> Some (p\<lparr>proc := (proc p)\<lparr>error_queue := rs\<rparr>, reported := reported p @ [r]\<rparr>)
      | [] \<Rightarrow> None)"

inductive pipe_step :: "pipeline \<Rightarrow> pipeline \<Rightarrow> bool" where
  download_put: "\<not> wq_closed (downloaded (proc p)) \<Longrightarrow> pipe_step p (put_input x p)"
| download_fail: "\<not> wq_closed (downloaded (proc p)) \<Longrightarrow> fj_type r = DOWNLOAD_FAILED \<Longrightarrow>
    pipe_step p (fail_input r p)"
| download_close: "pipe_step p (close_input p)"
| upload_get: "take_output p = Some q \<Longrightarrow> pipe_step p q"
| report: "report_error p = Some q \<Longrightarrow> pipe_step p q"
| process: "run_step (proc p) = Some s' \<Longrightarrow> pipe_step p (p\<lparr>proc := s'\<rparr>)"

inductive reach :: "pipeline \<Rightarrow> pipeline \<Rightarrow> bool" for p0 :: pipeline where
  refl: "reach p0 p0"
| step: "reach p0 p \<Longrightarrow> pipe_step p q \<Longrightarrow> reach p0 q"

section \<open>What crossed the boundary\<close>

text \<open>The items the processing thread has taken off \<^verbatim>\<open>downloaded\<close>, and everything it
  has put on \<^verbatim>\<open>to_upload\<close> and on the error queue.\<close>

definition consumed :: "pipeline \<Rightarrow> item list" where
  "consumed p = take (length (sent p) - length (wq_items (downloaded (proc p)))) (sent p)"

definition outputs :: "pipeline \<Rightarrow> item list" where
  "outputs p = received p @ wq_items (to_upload (proc p))"

definition errors :: "pipeline \<Rightarrow> failed_job_batch list" where
  "errors p = reported p @ error_queue (proc p)"

text \<open>The exception that ended the thread, if any.\<close>

fun raised_exn :: "pt_pc \<Rightarrow> exn option" where
  "raised_exn (Raised e) = Some e"
| "raised_exn _ = None"

text \<open>The records of the processing thread's kind among them.\<close>

definition proc_errors :: "pipeline \<Rightarrow> failed_job_batch list" where
  "proc_errors p = filter (\<lambda>r. fj_type r = PROCESSING_FAILED) (errors p)"

text \<open>The invariant of the pipeline: the outputs fit the inputs taken, one each while the
  thread lives, all but the last one once it has died of an exception that last input
  caused; the records of kind \<open>PROCESSING_FAILED\<close> name the batches turned into skip
  markers, the others are the download thread's; \<^verbatim>\<open>to_upload\<close> is closed exactly
  when the thread has returned, after draining its closed input. Above all, what the
  thread has produced is what the specification \<open>process_all\<close> computes on the inputs
  taken so far.\<close>

definition pipe_inv :: "pipeline \<Rightarrow> bool" where
  "pipe_inv p \<longleftrightarrow>
     (is_running (pc (proc p)) \<longrightarrow> \<not> pt_done (proc p)) \<and>
     suffix (wq_items (downloaded (proc p))) (sent p) \<and>
     list_all2 slot_ok (take (length (outputs p)) (consumed p)) (outputs p) \<and>
     (\<not> is_raised (pc (proc p)) \<longrightarrow> length (consumed p) = length (outputs p)) \<and>
     (\<forall>e. pc (proc p) = Raised e \<longrightarrow>
        length (consumed p) = Suc (length (outputs p)) \<and> crash_by e (last (consumed p))) \<and>
     map fj_batch (proc_errors p) = failed_batches (consumed p) (outputs p) \<and>
     filter (\<lambda>r. fj_type r \<noteq> PROCESSING_FAILED) (errors p) = dl_failed p \<and>
     process_all (script (proc p)) (cwd (proc p)) (fs0 p) (consumed p) =
       (outputs p, proc_errors p, files (proc p), raised_exn (pc (proc p))) \<and>
     (wq_closed (to_upload (proc p)) \<longleftrightarrow> pc (proc p) = Returned) \<and>
     (pc (proc p) = Returned \<longrightarrow> wq_closed (downloaded (proc p)) \<and> wq_items (downloaded (proc p)) = [])"

section \<open>Helper lemmas\<close>

lemma suffix_Cons_take:
  "suffix (x # xs) zs \<Longrightarrow> take (length zs - length xs) zs = take (length zs - length (x # xs)) zs @ [x]"
  by (auto simp: suffix_def)

lemma suffix_snoc_take:
  "suffix xs zs \<Longrightarrow> take (length (zs @ [x]) - length (xs @ [x])) (zs @ [x]) = take (length zs - length xs) zs"
  by (auto simp: suffix_def)

lemma suffix_snoc_snoc: "suffix xs zs \<Longrightarrow> suffix (xs @ [x]) (zs @ [x])"
  by (auto simp: suffix_def)

lemma failed_batches_snoc:
  "length xs = length ys \<Longrightarrow>
   failed_batches (xs @ [x]) (ys @ [y]) =
     failed_batches xs ys @ (case x of Some b \<Rightarrow> if y = None then [b] else [] | None \<Rightarrow> [])"
proof (induction xs arbitrary: ys)
  case Nil
  then show ?case by (cases x; cases y) simp_all
next
  case (Cons a xs)
  then obtain c ys' where "ys = c # ys'" "length xs = length ys'"
    by (cases ys) auto
  with Cons.IH show ?case by (cases a; cases c) simp_all
qed

lemma take_output_SomeD:
  "take_output p = Some q \<Longrightarrow>
   \<exists>y uq. wq_get (to_upload (proc p)) = Some (Inr y, uq) \<and>
          q = p\<lparr>proc := (proc p)\<lparr>to_upload := uq\<rparr>, received := received p @ [y]\<rparr>"
  by (simp add: take_output_def split: option.splits sum.splits prod.splits)

lemma report_error_SomeD:
  "report_error p = Some q \<Longrightarrow>
   \<exists>r rs. error_queue (proc p) = r # rs \<and>
          q = p\<lparr>proc := (proc p)\<lparr>error_queue := rs\<rparr>, reported := reported p @ [r]\<rparr>"
  by (simp add: report_error_def split: list.splits)

lemma pipe_inv_cong:
  assumes "pc (proc q) = pc (proc p)" "pt_done (proc q) = pt_done (proc p)"
    "downloaded (proc q) = downloaded (proc p)" "sent q = sent p"
    "outputs q = outputs p" "errors q = errors p" "dl_failed q = dl_failed p"
    "wq_closed (to_upload (proc q)) = wq_closed (to_upload (proc p))"
    "files (proc q) = files (proc p)" "script (proc q) = script (proc p)" "cwd (proc q) = cwd (proc p)"
    "fs0 q = fs0 p"
  shows "pipe_inv q = pipe_inv p"
  using assms unfolding pipe_inv_def consumed_def proc_errors_def by simp

lemma consumed_snoc:
  "suffix (wq_items (downloaded (proc p))) (sent p) \<Longrightarrow>
   wq_items (downloaded (proc q)) = wq_items (downloaded (proc p)) @ [x] \<Longrightarrow> sent q = sent p @ [x] \<Longrightarrow>
   consumed q = consumed p"
  by (simp add: consumed_def suffix_snoc_take)

lemma take_length_eq: "length xs = length ys \<Longrightarrow> take (length ys) (xs @ zs) = xs"
  by simp

section \<open>The invariant holds initially and is kept by every step\<close>

lemma pipe_inv_init: "pipe_inv (pipe_init sc f d)"
  by (simp add: pipe_inv_def pipe_init_def init_thread_def consumed_def outputs_def errors_def
      proc_errors_def)

text \<open>A put of the download thread, with or without a record of its own: what the
  processing thread consumed and produced is unchanged.\<close>

lemma pipe_inv_input:
  assumes inv: "pipe_inv p" and nc: "\<not> wq_closed (downloaded (proc p))"
    and q: "pc (proc q) = pc (proc p)" "pt_done (proc q) = pt_done (proc p)"
      "wq_items (downloaded (proc q)) = wq_items (downloaded (proc p)) @ [x]"
      "wq_closed (downloaded (proc q)) = wq_closed (downloaded (proc p))"
      "sent q = sent p @ [x]" "outputs q = outputs p" "to_upload (proc q) = to_upload (proc p)"
      "filter (\<lambda>r. fj_type r = PROCESSING_FAILED) (errors q) = proc_errors p"
      "filter (\<lambda>r. fj_type r \<noteq> PROCESSING_FAILED) (errors q) =
         filter (\<lambda>r. fj_type r \<noteq> PROCESSING_FAILED) (errors p) @ ds"
      "dl_failed q = dl_failed p @ ds"
      "files (proc q) = files (proc p)" "script (proc q) = script (proc p)" "cwd (proc q) = cwd (proc p)"
      "fs0 q = fs0 p"
  shows "pipe_inv q"
proof -
  have suf: "suffix (wq_items (downloaded (proc p))) (sent p)"
    using inv by (simp add: pipe_inv_def)
  then have "consumed q = consumed p"
    using q(3,5) by (rule consumed_snoc)
  moreover have "suffix (wq_items (downloaded (proc q))) (sent q)"
    using suf q by (simp add: suffix_snoc_snoc)
  moreover have "pc (proc p) \<noteq> Returned"
    using inv nc by (auto simp: pipe_inv_def)
  ultimately show ?thesis
    using inv q by (simp add: pipe_inv_def proc_errors_def)
qed

lemma pipe_inv_download_put:
  "pipe_inv p \<Longrightarrow> \<not> wq_closed (downloaded (proc p)) \<Longrightarrow> pipe_inv (put_input x p)"
  by (erule pipe_inv_input)
     (simp_all add: put_input_def outputs_def errors_def proc_errors_def pipe_inv_def)

lemma pipe_inv_download_fail:
  "pipe_inv p \<Longrightarrow> \<not> wq_closed (downloaded (proc p)) \<Longrightarrow> fj_type r = DOWNLOAD_FAILED \<Longrightarrow>
   pipe_inv (fail_input r p)"
  by (erule pipe_inv_input)
     (simp_all add: fail_input_def outputs_def errors_def proc_errors_def pipe_inv_def)

lemma pipe_inv_download_close:
  assumes inv: "pipe_inv p"
  shows "pipe_inv (close_input p)"
proof -
  have "consumed (close_input p) = consumed p" "outputs (close_input p) = outputs p"
    "errors (close_input p) = errors p" "proc_errors (close_input p) = proc_errors p"
    by (simp_all add: close_input_def consumed_def outputs_def errors_def proc_errors_def)
  with inv show ?thesis by (simp add: pipe_inv_def close_input_def)
qed

lemma pipe_inv_upload_get: "pipe_inv p \<Longrightarrow> take_output p = Some q \<Longrightarrow> pipe_inv q"
proof -
  assume inv: "pipe_inv p" and t: "take_output p = Some q"
  from take_output_SomeD [OF t] obtain y uq where
    g: "wq_get (to_upload (proc p)) = Some (Inr y, uq)" and
    q: "q = p\<lparr>proc := (proc p)\<lparr>to_upload := uq\<rparr>, received := received p @ [y]\<rparr>"
    by blast
  from g have "outputs q = outputs p" "wq_closed (to_upload (proc q)) = wq_closed (to_upload (proc p))"
    by (simp_all add: q outputs_def wq_get_Inr_iff)
  with inv show ?thesis
    by (subst pipe_inv_cong) (simp_all add: q errors_def)
qed

lemma pipe_inv_report: "pipe_inv p \<Longrightarrow> report_error p = Some q \<Longrightarrow> pipe_inv q"
proof -
  assume inv: "pipe_inv p" and t: "report_error p = Some q"
  from report_error_SomeD [OF t] obtain r rs where
    e: "error_queue (proc p) = r # rs" and
    q: "q = p\<lparr>proc := (proc p)\<lparr>error_queue := rs\<rparr>, reported := reported p @ [r]\<rparr>"
    by blast
  from e have "errors q = errors p"
    by (simp add: q errors_def)
  with inv show ?thesis
    by (subst pipe_inv_cong) (simp_all add: q outputs_def)
qed

lemma pipe_inv_all2:
  "pipe_inv p \<Longrightarrow> \<not> is_raised (pc (proc p)) \<Longrightarrow> list_all2 slot_ok (consumed p) (outputs p)"
  unfolding pipe_inv_def by (metis order_refl take_all)

text \<open>A step of the thread within its loop that touches none of the queues.\<close>

lemma pipe_inv_internal:
  assumes inv: "pipe_inv p" and t: "downloaded t = downloaded (proc p)" "to_upload t = to_upload (proc p)"
    "error_queue t = error_queue (proc p)" "pt_done t = pt_done (proc p)"
    "files t = files (proc p)" "script t = script (proc p)" "cwd t = cwd (proc p)"
    and run: "is_running (pc (proc p))" "is_running (pc t)"
  shows "pipe_inv (p\<lparr>proc := t\<rparr>)"
proof -
  have "consumed (p\<lparr>proc := t\<rparr>) = consumed p" "outputs (p\<lparr>proc := t\<rparr>) = outputs p"
    "errors (p\<lparr>proc := t\<rparr>) = errors p"
    using t by (simp_all add: consumed_def outputs_def errors_def)
  moreover have "pc (proc p) \<noteq> Returned" "\<not> is_raised (pc (proc p))"
    "pc t \<noteq> Returned" "\<not> is_raised (pc t)" "\<forall>e. pc t \<noteq> Raised e"
    using run by (auto elim: is_running.elims)
  moreover have "raised_exn (pc t) = raised_exn (pc (proc p))"
    using run by (cases "pc t"; cases "pc (proc p)") simp_all
  moreover have "list_all2 slot_ok (consumed p) (outputs p)"
    using inv by (rule pipe_inv_all2) (use run in \<open>auto elim: is_running.elims\<close>)
  ultimately show ?thesis
    using inv t run by (simp add: pipe_inv_def proc_errors_def)
qed

lemma pipe_inv_loop_head:
  assumes inv: "pipe_inv p" and pc: "pc (proc p) = Loop_head"
  shows "pipe_inv (p\<lparr>proc := loop_head (proc p)\<rparr>)"
proof -
  from inv pc have "\<not> pt_done (proc p)" by (simp add: pipe_inv_def)
  then have "loop_head (proc p) = (log_info ''Waiting for next batch to process'' (proc p))\<lparr>pc := At_get\<rparr>"
    by (rule loop_head_enter)
  with inv pc show ?thesis
    by (simp add: pipe_inv_internal)
qed

lemma pipe_inv_take_closed:
  assumes inv: "pipe_inv p" and pc: "pc (proc p) = At_get"
    and q: "wq_items (downloaded (proc p)) = []" "wq_closed (downloaded (proc p))"
  shows "pipe_inv (p\<lparr>proc := finish_run ((proc p)\<lparr>pt_done := True\<rparr>)\<rparr>)"
proof -
  let ?p' = "p\<lparr>proc := finish_run ((proc p)\<lparr>pt_done := True\<rparr>)\<rparr>"
  have "consumed ?p' = consumed p" "outputs ?p' = outputs p" "errors ?p' = errors p"
    using q by (simp_all add: consumed_def outputs_def errors_def)
  moreover have "list_all2 slot_ok (consumed p) (outputs p)"
    using inv by (rule pipe_inv_all2) (simp add: pc)
  ultimately show ?thesis using inv pc q by (simp add: pipe_inv_def proc_errors_def)
qed

text \<open>An input taken off \<^verbatim>\<open>downloaded\<close> is the last one consumed.\<close>

lemma consumed_take:
  assumes "suffix (x # xs) (sent p)" "wq_items (downloaded (proc p)) = x # xs"
    and "wq_items (downloaded t) = xs"
  shows "consumed (p\<lparr>proc := t\<rparr>) = consumed p @ [x]" "suffix xs (sent p)"
  using assms by (simp_all add: consumed_def suffix_Cons_take suffix_ConsD)

lemma pipe_inv_take_Inl:
  assumes inv: "pipe_inv p" and pc: "pc (proc p) = At_get"
    and q: "wq_items (downloaded (proc p)) = x # xs"
    and item: "process_item (script (proc p)) (cwd (proc p)) (files (proc p)) x = Inl (e, f')"
    and t: "pc t = Raised e" "downloaded t = (downloaded (proc p))\<lparr>wq_items := xs\<rparr>"
      "to_upload t = to_upload (proc p)" "error_queue t = error_queue (proc p)"
      "files t = f'" "script t = script (proc p)" "cwd t = cwd (proc p)"
  shows "pipe_inv (p\<lparr>proc := t\<rparr>)"
proof -
  let ?p' = "p\<lparr>proc := t\<rparr>"
  from inv q have "suffix (x # xs) (sent p)" by (simp add: pipe_inv_def)
  moreover have "wq_items (downloaded t) = xs" using t by simp
  ultimately have c: "consumed ?p' = consumed p @ [x]" and suf: "suffix xs (sent p)"
    using q by (simp_all add: consumed_take)
  have o: "outputs ?p' = outputs p" and e: "errors ?p' = errors p"
    using t by (simp_all add: outputs_def errors_def)
  have len: "length (consumed p) = length (outputs p)"
    using inv pc by (simp add: pipe_inv_def)
  have "failed_batches (consumed p @ [x]) (outputs p) = failed_batches (consumed p) (outputs p)"
    using len by (simp add: failed_batches_append_left)
  moreover have "\<not> wq_closed (to_upload (proc p))"
    using inv pc by (simp add: pipe_inv_def)
  moreover note process_item_Inl_crash [OF item]
  moreover have "process_all (script (proc p)) (cwd (proc p)) (fs0 p) (consumed p @ [x]) =
                 (outputs p, proc_errors p, f', Some e)"
  proof -
    have "process_all (script (proc p)) (cwd (proc p)) (fs0 p) (consumed p) =
          (outputs p, proc_errors p, files (proc p), None)"
      using inv pc by (simp add: pipe_inv_def)
    from process_all_snoc [OF this] item show ?thesis by simp
  qed
  ultimately show ?thesis
    using inv pc t c o e suf len by (simp add: pipe_inv_def proc_errors_def take_length_eq)
qed

lemma pipe_inv_take_Inr:
  assumes inv: "pipe_inv p" and pc: "pc (proc p) = At_get"
    and q: "wq_items (downloaded (proc p)) = x # xs"
    and item: "process_item (script (proc p)) (cwd (proc p)) (files (proc p)) x = Inr (y, es, f')"
    and t: "pc t = Loop_head" "pt_done t = pt_done (proc p)"
      "downloaded t = (downloaded (proc p))\<lparr>wq_items := xs\<rparr>" "to_upload t = wq_put y (to_upload (proc p))"
      "error_queue t = error_queue (proc p) @ es"
      "files t = f'" "script t = script (proc p)" "cwd t = cwd (proc p)"
  shows "pipe_inv (p\<lparr>proc := t\<rparr>)"
proof -
  let ?p' = "p\<lparr>proc := t\<rparr>"
  from inv q have "suffix (x # xs) (sent p)" by (simp add: pipe_inv_def)
  moreover have "wq_items (downloaded t) = xs" using t by simp
  ultimately have c: "consumed ?p' = consumed p @ [x]" and suf: "suffix xs (sent p)"
    using q by (simp_all add: consumed_take)
  have o: "outputs ?p' = outputs p @ [y]" and e: "errors ?p' = errors p @ es"
    using t by (simp_all add: outputs_def errors_def)
  have len: "length (consumed p) = length (outputs p)"
    using inv pc by (simp add: pipe_inv_def)
  from inv have "list_all2 slot_ok (consumed p) (outputs p)" by (rule pipe_inv_all2) (simp add: pc)
  moreover note process_item_Inr_slot [OF item]
  moreover have "filter (\<lambda>r. fj_type r \<noteq> PROCESSING_FAILED) es = []"
    "filter (\<lambda>r. fj_type r = PROCESSING_FAILED) es = es"
    using process_item_Inr_slot [OF item] by (simp_all add: list_all_iff)
  moreover have "\<not> pt_done (proc p)" "\<not> wq_closed (to_upload (proc p))"
    using inv pc by (simp_all add: pipe_inv_def)
  moreover have "process_all (script (proc p)) (cwd (proc p)) (fs0 p) (consumed p @ [x]) =
                 (outputs p @ [y], proc_errors p @ es, f', None)"
  proof -
    have "process_all (script (proc p)) (cwd (proc p)) (fs0 p) (consumed p) =
          (outputs p, proc_errors p, files (proc p), None)"
      using inv pc by (simp add: pipe_inv_def)
    from process_all_snoc [OF this] item show ?thesis by simp
  qed
  ultimately show ?thesis
    using inv pc t c o e suf len by (simp add: pipe_inv_def proc_errors_def failed_batches_snoc)
qed

lemma pipe_inv_take_item:
  assumes inv: "pipe_inv p" and pc: "pc (proc p) = At_get" and t: "take_item (proc p) = Some t"
  shows "pipe_inv (p\<lparr>proc := t\<rparr>)"
proof (cases "wq_items (downloaded (proc p))")
  case Nil
  with t have "wq_closed (downloaded (proc p))" "t = finish_run ((proc p)\<lparr>pt_done := True\<rparr>)"
    by (simp_all add: take_item_def split: if_splits)
  with inv pc Nil show ?thesis by (simp add: pipe_inv_take_closed)
next
  case (Cons x xs)
  show ?thesis
  proof (cases "process_item (script (proc p)) (cwd (proc p)) (files (proc p)) x")
    case (Inl ef)
    then obtain e f' where
      item: "process_item (script (proc p)) (cwd (proc p)) (files (proc p)) x = Inl (e, f')"
      by (cases ef) simp
    from take_item_Inl [OF Cons item] t have f: "pc t = Raised e"
      "downloaded t = (downloaded (proc p))\<lparr>wq_items := xs\<rparr>"
      "to_upload t = to_upload (proc p)" "error_queue t = error_queue (proc p)" "files t = f'"
      by auto
    have "script t = script (proc p)" "cwd t = cwd (proc p)"
      using take_item_frame [OF t] by simp_all
    with f show ?thesis
      by (rule pipe_inv_take_Inl [OF inv pc Cons item])
  next
    case (Inr yef)
    then obtain y es f' where
      item: "process_item (script (proc p)) (cwd (proc p)) (files (proc p)) x = Inr (y, es, f')"
      by (cases yef) auto
    from take_item_Inr [OF Cons item] t have "pc t = Loop_head"
      "pt_done t = pt_done (proc p)" "downloaded t = (downloaded (proc p))\<lparr>wq_items := xs\<rparr>"
      "to_upload t = wq_put y (to_upload (proc p))" "error_queue t = error_queue (proc p) @ es"
      "files t = f'" "script t = script (proc p)" "cwd t = cwd (proc p)"
      by auto
    then show ?thesis
      by (rule pipe_inv_take_Inr [OF inv pc Cons item])
  qed
qed

lemma pipe_inv_process: "pipe_inv p \<Longrightarrow> run_step (proc p) = Some s' \<Longrightarrow> pipe_inv (p\<lparr>proc := s'\<rparr>)"
  by (cases "pc (proc p)") (auto simp: run_step_def intro: pipe_inv_loop_head pipe_inv_take_item)

lemma pipe_step_inv: "pipe_step p q \<Longrightarrow> pipe_inv p \<Longrightarrow> pipe_inv q"
proof (induction rule: pipe_step.induct)
  case (download_put p x)
  then show ?case by (blast intro: pipe_inv_download_put)
next
  case (download_fail p r)
  then show ?case by (blast intro: pipe_inv_download_fail)
next
  case (download_close p)
  then show ?case by (blast intro: pipe_inv_download_close)
next
  case (upload_get p q)
  then show ?case by (blast intro: pipe_inv_upload_get)
next
  case (report p q)
  then show ?case by (blast intro: pipe_inv_report)
next
  case (process p s')
  then show ?case by (blast intro: pipe_inv_process)
qed

lemma reach_inv: "reach p0 p \<Longrightarrow> pipe_inv p0 \<Longrightarrow> pipe_inv p"
  by (induction rule: reach.induct) (simp_all add: pipe_step_inv)

lemma reach_init_inv: "reach (pipe_init sc f d) p \<Longrightarrow> pipe_inv p"
  using reach_inv pipe_inv_init by blast

section \<open>Runs of the pipeline\<close>

lemma reach_trans: "reach p q \<Longrightarrow> reach p0 p \<Longrightarrow> reach p0 q"
  by (induction rule: reach.induct) (auto intro: reach.step)

lemma reach_run_loop_aux:
  "proc p = s \<Longrightarrow> reach p0 p \<Longrightarrow> reach p0 (p\<lparr>proc := run_loop s\<rparr>)"
proof (induction s arbitrary: p rule: run_loop.induct)
  case (1 s)
  show ?case
  proof (cases "run_step s")
    case None
    then have "run_loop s = s" by (rule run_loop_stop)
    with "1.prems"(1) have "p\<lparr>proc := run_loop s\<rparr> = p" by simp
    with "1.prems"(2) show ?thesis by (simp only:)
  next
    case (Some s')
    with "1.prems" have r: "reach p0 (p\<lparr>proc := s'\<rparr>)"
      by (metis reach.step pipe_step.process)
    from "1.IH" [OF Some, of "p\<lparr>proc := s'\<rparr>"] r Some show ?thesis
      by (simp add: run_loop_step)
  qed
qed

lemma reach_run_loop: "reach p0 p \<Longrightarrow> reach p0 (p\<lparr>proc := run_loop (proc p)\<rparr>)"
  by (rule reach_run_loop_aux) simp_all

lemma reach_puts:
  "reach p0 p \<Longrightarrow> \<not> wq_closed (downloaded (proc p)) \<Longrightarrow> reach p0 (fold put_input xs p)"
proof (induction xs arbitrary: p)
  case (Cons x xs)
  have "reach p0 (put_input x p)"
    using Cons.prems by (blast intro: reach.step pipe_step.download_put)
  moreover have "\<not> wq_closed (downloaded (proc (put_input x p)))"
    using Cons.prems(2) by (simp add: put_input_def)
  ultimately show ?case by (simp add: Cons.IH)
qed simp

lemma reach_close: "reach p0 p \<Longrightarrow> reach p0 (close_input p)"
  by (blast intro: reach.step pipe_step.download_close)

lemma reach_run_step:
  assumes "reach p0 p" and "run_step (proc p) \<noteq> None"
  shows "reach p0 (p\<lparr>proc := the (run_step (proc p))\<rparr>)"
proof -
  from assms(2) obtain s' where s': "run_step (proc p) = Some s'" by blast
  from assms(1) pipe_step.process [OF s'] have "reach p0 (p\<lparr>proc := s'\<rparr>)"
    by (rule reach.step)
  with s' show ?thesis by simp
qed

lemma pipe_step_raised: "pipe_step p q \<Longrightarrow> pc (proc p) = Raised e \<Longrightarrow> pc (proc q) = Raised e"
proof (induction rule: pipe_step.induct)
  case (upload_get p q)
  then show ?case by (auto dest: take_output_SomeD)
next
  case (report p q)
  then show ?case by (auto dest: report_error_SomeD)
qed (simp_all add: run_step_def put_input_def fail_input_def close_input_def)

lemma reach_raised: "reach p q \<Longrightarrow> pc (proc p) = Raised e \<Longrightarrow> pc (proc q) = Raised e"
  by (induction rule: reach.induct) (simp_all add: pipe_step_raised)

text \<open>No step changes the script, the working directory or the initial file system.\<close>

lemma pipe_step_frame:
  "pipe_step p q \<Longrightarrow>
   script (proc q) = script (proc p) \<and> cwd (proc q) = cwd (proc p) \<and> fs0 q = fs0 p"
proof (induction rule: pipe_step.induct)
  case (upload_get p q)
  then show ?case by (auto dest: take_output_SomeD)
next
  case (report p q)
  then show ?case by (auto dest: report_error_SomeD)
next
  case (process p s')
  then show ?case by (simp add: run_step_frame)
qed (simp_all add: put_input_def fail_input_def close_input_def)

lemma reach_frame:
  "reach p0 p \<Longrightarrow>
   script (proc p) = script (proc p0) \<and> cwd (proc p) = cwd (proc p0) \<and> fs0 p = fs0 p0"
  by (induction rule: reach.induct) (auto dest: pipe_step_frame)

lemma pipe_inv_loop_guard: "pipe_inv p \<Longrightarrow> pc (proc p) = Loop_head \<Longrightarrow> loop_guard (proc p)"
  by (simp add: pipe_inv_def loop_guard_def)

lemma consumed_suffix:
  "suffix (wq_items (downloaded (proc p))) (sent p) \<Longrightarrow> consumed p @ wq_items (downloaded (proc p)) = sent p"
  by (auto simp: consumed_def suffix_def)

lemma subseteq_add_mset_right: "A \<subseteq># B \<Longrightarrow> A \<subseteq># add_mset x B"
  by (metis add_mset_add_single mset_subset_eq_add_left subset_mset.order_trans)

lemma slot_ok_mset:
  "list_all2 slot_ok xs ys \<Longrightarrow> mset (filter (\<lambda>y. y \<noteq> None) ys) \<subseteq># mset (filter (\<lambda>y. y \<noteq> None) xs)"
  by (induction rule: list_all2_induct) (auto simp: slot_ok_def intro: subseteq_add_mset_right)

lemma mset_filter_take_subseteq: "mset (filter P (take n xs)) \<subseteq># mset (filter P xs)"
proof -
  have "filter P xs = filter P (take n xs) @ filter P (drop n xs)"
    by (metis append_take_drop_id filter_append)
  then show ?thesis by (metis mset_append mset_subset_eq_add_left)
qed

text \<open>The refinement invariant, read off a reachable state.\<close>

lemma reach_process_all:
  assumes "reach (pipe_init sc f d) p"
  shows "process_all sc d f (consumed p) =
           (outputs p, proc_errors p, files (proc p), raised_exn (pc (proc p)))"
proof -
  have "pipe_inv p" using assms by (rule reach_init_inv)
  moreover have "script (proc p) = sc" "cwd (proc p) = d" "fs0 p = f"
    using reach_frame [OF assms] by (simp_all add: pipe_init_def init_thread_def)
  ultimately show ?thesis by (simp add: pipe_inv_def)
qed

lemma reach_returned_consumed:
  "reach (pipe_init sc f d) p \<Longrightarrow> pc (proc p) = Returned \<Longrightarrow> consumed p = sent p"
  using reach_init_inv by (fastforce simp: pipe_inv_def consumed_def)

text \<open>The upload thread can drain \<^verbatim>\<open>to_upload\<close>, whatever it holds.\<close>

lemma reach_drain:
  "reach p0 p \<Longrightarrow> wq_items (to_upload (proc p)) = ys \<Longrightarrow>
   \<exists>q. reach p q \<and> received q = received p @ ys \<and> wq_items (to_upload (proc q)) = [] \<and>
       wq_closed (to_upload (proc q)) = wq_closed (to_upload (proc p)) \<and> reach p0 q"
proof (induction ys arbitrary: p)
  case Nil
  then show ?case by (blast intro: reach.refl)
next
  case (Cons y ys)
  let ?p' = "p\<lparr>proc := (proc p)\<lparr>to_upload := (to_upload (proc p))\<lparr>wq_items := ys\<rparr>\<rparr>,
               received := received p @ [y]\<rparr>"
  have t: "take_output p = Some ?p'"
    using Cons.prems(2) by (simp add: take_output_def)
  then have "reach p ?p'" "reach p0 ?p'"
    using Cons.prems(1) by (blast intro: reach.step reach.refl pipe_step.upload_get)+
  moreover from Cons.IH [OF this(2)] obtain q where "reach ?p' q" "received q = received ?p' @ ys"
    "wq_items (to_upload (proc q)) = []" "wq_closed (to_upload (proc q)) = wq_closed (to_upload (proc ?p'))"
    "reach p0 q"
    by auto
  ultimately show ?case
    by (rule_tac x = q in exI) (auto intro: reach_trans)
qed

text \<open>On a closed input whose specification ends normally, the processing thread,
  run on from any reachable state, returns with the specified outputs and closes
  \<^verbatim>\<open>to_upload\<close>: it cannot die first, since \<open>process_all\<close> on the inputs it took would
  then end with an exception.\<close>

lemma reach_run_loop_spec:
  assumes "reach (pipe_init sc f d) p" and "wq_closed (downloaded (proc p))"
    and "process_all sc d f (sent p) = (ys, es, f', None)"
  shows "pc (run_loop (proc p)) = Returned \<and> outputs (p\<lparr>proc := run_loop (proc p)\<rparr>) = ys \<and>
         wq_closed (to_upload (run_loop (proc p)))"
proof -
  let ?q1 = "p\<lparr>proc := run_loop (proc p)\<rparr>"
  have r1: "reach (pipe_init sc f d) ?q1" by (rule reach_run_loop [OF assms(1)])
  have ends: "pc (proc ?q1) = Returned \<or> (\<exists>e. pc (proc ?q1) = Raised e)"
    using run_step_run_loop [of "proc p"] run_loop_closed_flag [of "proc p"] assms(2)
    by (auto simp: run_step_None_iff)
  have spec: "process_all sc d f (consumed ?q1) =
                (outputs ?q1, proc_errors ?q1, files (proc ?q1), raised_exn (pc (proc ?q1)))"
    by (rule reach_process_all [OF r1])
  have "suffix (wq_items (downloaded (proc ?q1))) (sent ?q1)"
    using reach_init_inv [OF r1] by (simp only: pipe_inv_def)
  then have sent: "consumed ?q1 @ wq_items (downloaded (proc ?q1)) = sent p"
    by (simp only: consumed_suffix) simp
  have ret: "pc (proc ?q1) = Returned"
  proof (rule ccontr)
    assume "pc (proc ?q1) \<noteq> Returned"
    with ends obtain e where "pc (proc ?q1) = Raised e" by blast
    with spec have "process_all sc d f (consumed ?q1 @ wq_items (downloaded (proc ?q1))) =
                      (outputs ?q1, proc_errors ?q1, files (proc ?q1), Some e)"
      by (simp add: process_all_append_Some)
    with sent assms(3) show False by simp
  qed
  moreover have "consumed ?q1 = sent p"
    using reach_returned_consumed [OF r1 ret] by simp
  with spec assms(3) ret have "outputs ?q1 = ys" by simp
  moreover have "wq_closed (to_upload (proc ?q1))"
    using reach_init_inv [OF r1] ret by (simp add: pipe_inv_def)
  ultimately show ?thesis by simp
qed

section \<open>Properties of the pipeline\<close>

text \<open>C3 (invariant). In every state of every interleaving of the pipeline in which the
  processing thread has not died, the outputs it has produced (those the upload thread
  received, then those still queued) correspond one to one, in order, to the inputs it
  has taken off \<^verbatim>\<open>downloaded\<close>: each is that input or a skip marker.\<close>

theorem pipeline_outputs_match_inputs:
  assumes "reach (pipe_init sc f d) p" and "\<not> is_raised (pc (proc p))"
  shows "list_all2 slot_ok (consumed p) (outputs p)"
  using reach_init_inv [OF assms(1)] assms(2) by (rule pipe_inv_all2)

text \<open>C4 (invariant). In every state of every interleaving the failure records of kind
  \<open>PROCESSING_FAILED\<close> on the shared error queue (reported, then queued) name exactly
  the batches that came out as skip markers, in order: no failure is dropped, none is
  reported twice, and skip markers received from upstream produce none.\<close>

theorem pipeline_errors_match_skips:
  assumes "reach (pipe_init sc f d) p"
  shows "map fj_batch (proc_errors p) = failed_batches (consumed p) (outputs p)"
  using reach_init_inv [OF assms(1)] by (simp add: pipe_inv_def)

text \<open>C5 (safety). \<^verbatim>\<open>to_upload\<close> is closed only by a thread that has returned after
  seeing \<^verbatim>\<open>downloaded\<close> closed and drained, so every item the download thread sent has
  been consumed by then.\<close>

theorem pipeline_output_closed_after_input:
  assumes "reach (pipe_init sc f d) p" and "wq_closed (to_upload (proc p))"
  shows "pc (proc p) = Returned \<and> wq_closed (downloaded (proc p)) \<and>
         wq_items (downloaded (proc p)) = [] \<and> consumed p = sent p"
  using reach_init_inv [OF assms(1)] assms(2) by (simp add: pipe_inv_def consumed_def)

text \<open>C11 (invariant). The \<^verbatim>\<open>done\<close> flag is set only on the \<^verbatim>\<open>break\<close> path, so
  whenever the thread is at the \<^verbatim>\<open>while\<close> guard the flag is unset and the guard holds:
  the loop is never left through its condition, only through \<open>ClosedException\<close>.\<close>

theorem loop_guard_never_exits:
  assumes "reach (pipe_init sc f d) p" and "pc (proc p) = Loop_head"
  shows "loop_guard (proc p) \<and> pc (loop_head (proc p)) = At_get"
proof -
  have "loop_guard (proc p)"
    using reach_init_inv [OF assms(1)] assms(2) by (rule pipe_inv_loop_guard)
  then show ?thesis by (simp add: loop_head_def)
qed

text \<open>C12 (safety). Once an exception has ended the processing thread (a failed
  \<^verbatim>\<open>Path.resolve\<close> or \<^verbatim>\<open>rmtree\<close>, or a \<^verbatim>\<open>BaseException\<close> of the script), \<^verbatim>\<open>to_upload\<close> is never closed,
  whatever the other threads do: the upload thread, blocked in \<^verbatim>\<open>get\<close> once it has
  drained the queue, waits for ever.\<close>

theorem crash_leaves_output_open:
  assumes "reach (pipe_init sc f d) p" and "pc (proc p) = Raised e" and "reach p q"
  shows "pc (proc q) = Raised e \<and> \<not> wq_closed (to_upload (proc q))"
proof -
  have pq: "pc (proc q) = Raised e"
    using assms(3,2) by (rule reach_raised)
  have "pipe_inv q"
    using reach_trans [OF assms(3,1)] by (rule reach_init_inv)
  with pq show ?thesis by (simp add: pipe_inv_def)
qed

text \<open>C15 (invariant). Every failure record the processing thread produces has kind
  \<open>PROCESSING_FAILED\<close>: the records of any other kind on the shared error queue are
  exactly those the download thread put there, in order.\<close>

theorem pipeline_errors_processing_failed:
  assumes "reach (pipe_init sc f d) p"
  shows "filter (\<lambda>r. fj_type r \<noteq> PROCESSING_FAILED) (errors p) = dl_failed p"
  using reach_init_inv [OF assms] by (simp add: pipe_inv_def)

text \<open>C18 (error). The thread dies only of an exception raised for the last input it
  took, which then has no output: an exception of \<^verbatim>\<open>Path.resolve\<close> (a \<open>RuntimeError\<close>
  or a \<open>NotADirectoryError\<close>), an error of \<^verbatim>\<open>rmtree\<close> for that batch's input folder,
  or a \<^verbatim>\<open>BaseException\<close> of
  the script. A \<open>ClosedException\<close>, a skip marker or an \<^verbatim>\<open>Exception\<close> of the script never
  ends it.\<close>

theorem pipeline_crash_cause:
  assumes "reach (pipe_init sc f d) p" and "pc (proc p) = Raised e"
  shows "length (consumed p) = Suc (length (outputs p)) \<and> crash_by e (last (consumed p))"
  using reach_init_inv [OF assms(1)] assms(2) by (simp add: pipe_inv_def)

text \<open>C19 (refinement). Any interleaving of the pipeline refines the sequential
  specification: in every reachable state, the outputs the processing thread has put on
  \<^verbatim>\<open>to_upload\<close> (received or queued), its \<open>PROCESSING_FAILED\<close> records on the shared
  error queue (reported or queued), and the file system are exactly what
  \<open>process_all\<close> computes from the initial file system on the inputs the thread has
  taken so far, and the thread has died exactly when \<open>process_all\<close> ends with an
  exception, with that exception.\<close>

theorem pipeline_refines_spec:
  assumes "reach (pipe_init sc f d) p"
  shows "process_all sc d f (consumed p) =
           (outputs p, proc_errors p, files (proc p), raised_exn (pc (proc p)))"
  using assms by (rule reach_process_all)

text \<open>C20 (equivalence). The result of the stage does not depend on the scheduling: two
  runs of the pipeline, with any interleavings of the four threads, in which the
  download thread sent the same items and the processing thread returned, end with the
  same outputs, the same \<open>PROCESSING_FAILED\<close> records and the same file system.\<close>

theorem pipeline_schedule_independent:
  assumes "reach (pipe_init sc f d) p" and "reach (pipe_init sc f d) q"
    and "pc (proc p) = Returned" and "pc (proc q) = Returned" and "sent p = sent q"
  shows "outputs p = outputs q \<and> proc_errors p = proc_errors q \<and> files (proc p) = files (proc q)"
proof -
  have "process_all sc d f (sent p) = (outputs p, proc_errors p, files (proc p), None)"
    using reach_process_all [OF assms(1)] reach_returned_consumed [OF assms(1,3)] assms(3) by simp
  moreover have "process_all sc d f (sent q) = (outputs q, proc_errors q, files (proc q), None)"
    using reach_process_all [OF assms(2)] reach_returned_consumed [OF assms(2,4)] assms(4) by simp
  ultimately show ?thesis using assms(5) by simp
qed

text \<open>C22 (liveness). Once the download thread has closed \<^verbatim>\<open>downloaded\<close>, if the
  specification ends without an exception on what was sent, the upload thread can, by
  the steps of the processing thread and its own, receive exactly the specified
  outputs, in order, and then find \<^verbatim>\<open>to_upload\<close> drained and closed, so that its own
  loop ends.\<close>

theorem pipeline_upload_receives_all:
  assumes "reach (pipe_init sc f d) p" and "wq_closed (downloaded (proc p))"
    and "process_all sc d f (sent p) = (ys, es, f', None)"
  shows "\<exists>q. reach p q \<and> received q = ys \<and> wq_items (to_upload (proc q)) = [] \<and>
             wq_closed (to_upload (proc q))"
proof -
  let ?q1 = "p\<lparr>proc := run_loop (proc p)\<rparr>"
  have pq1: "reach p ?q1" by (rule reach_run_loop [OF reach.refl])
  have r1: "reach (pipe_init sc f d) ?q1" by (rule reach_trans [OF pq1 assms(1)])
  from reach_run_loop_spec [OF assms] have out: "outputs ?q1 = ys" and closed: "wq_closed (to_upload (proc ?q1))"
    by simp_all
  from reach_drain [OF r1 HOL.refl] obtain q where "reach ?q1 q"
    "received q = received ?q1 @ wq_items (to_upload (proc ?q1))"
    "wq_items (to_upload (proc q)) = []" "wq_closed (to_upload (proc q)) = wq_closed (to_upload (proc ?q1))"
    by blast
  with out closed pq1 show ?thesis
    by (rule_tac x = q in exI) (auto simp: outputs_def intro: reach_trans)
qed

end
