(* ===== verification/Log_Spec.thy ===== *)
theory Log_Spec
  imports Pipeline
begin

text \<open>
  What the processing thread writes to its \<^verbatim>\<open>structlog\<close> logger over a whole run, as a
  function of its inputs: the calls of lines 42, 50, 53, 57, 64, 69--71 and 79 of
  \<^verbatim>\<open>processing_thread.py\<close>, in the order the iterations make them. \<open>item_log\<close> is the
  part of one iteration after the \<^verbatim>\<open>get\<close>; \<open>log_all\<close> strings the iterations
  together the way \<open>process_all\<close> does, threading the file system and stopping at the
  exception that ends the thread. \<open>run_loop\<close> writes exactly this log (C24). In every
  interleaving of the pipeline, the failure records the thread has logged are exactly
  its \<open>PROCESSING_FAILED\<close> records on the shared error queue, in order (C25), shown
  by rule induction over \<open>reach\<close>.
\<close>

text \<open>The log lines of one input after the \<^verbatim>\<open>get\<close>: the skip message of line 50; or
  \<^verbatim>\<open>Got batch\<close> (line 53), and, when the working directory resolves, \<^verbatim>\<open>Running script\<close>
  (line 57) followed by the failure record (line 64) when the script raises an
  \<^verbatim>\<open>Exception\<close>, nothing more when it raises a \<^verbatim>\<open>BaseException\<close>, and the
  \<^verbatim>\<open>Finished\<close> line (lines 69--71) when it succeeds, which is written before
  \<^verbatim>\<open>rmtree\<close> runs.\<close>

fun item_log :: "script \<Rightarrow> path \<Rightarrow> fs \<Rightarrow> item \<Rightarrow> log_entry list" where
  "item_log sc d f None = [Log_info ''Processing: Batch is empty do to previous error'']"
| "item_log sc d f (Some b) =
     Log_info (''Got batch at folder '' @ tmp_dir_name b) #
     (case path_resolve f d (tmp_dir_name b) of
        Inl _ \<Rightarrow> []
      | Inr wd \<Rightarrow>
          Log_info (''Running script on '' @ path_str wd) #
          (case sc wd f of
             (Some e, _) \<Rightarrow> if is_Exception e then [Log_error (failure_record b e)] else []
           | (None, _) \<Rightarrow> [Log_info (''Finished running script on '' @ path_str wd @ '', removing input'')]))"

text \<open>The log of a run on a closed queue holding the inputs: each iteration starts with
  the \<^verbatim>\<open>Waiting\<close> line of line 42; the last one finds the queue closed and ends with
  the line of line 79, unless an exception has ended the thread before.\<close>

fun log_all :: "script \<Rightarrow> path \<Rightarrow> fs \<Rightarrow> item list \<Rightarrow> log_entry list" where
  "log_all sc d f [] = [Log_info ''Waiting for next batch to process'', Log_info ''Processing thread done'']"
| "log_all sc d f (x # xs) =
     Log_info ''Waiting for next batch to process'' # item_log sc d f x @
     (case process_item sc d f x of Inl _ \<Rightarrow> [] | Inr (_, _, f') \<Rightarrow> log_all sc d f' xs)"

text \<open>The failure records among the log entries, in order.\<close>

fun logged_errors :: "log_entry list \<Rightarrow> failed_job_batch list" where
  "logged_errors [] = []"
| "logged_errors (Log_error r # l) = r # logged_errors l"
| "logged_errors (Log_info _ # l) = logged_errors l"

section \<open>One iteration\<close>

lemma skip_batch_logger [simp]:
  "logger (skip_batch s) = logger s @ item_log (script s) (cwd s) (files s) None"
  by (simp add: skip_batch_def)

lemma process_batch_logger:
  "logger (process_batch b s) = logger s @ item_log (script s) (cwd s) (files s) (Some b)"
  by (simp add: process_batch_def purge_and_forward_def script_failed_def failure_record_def Let_def
      split: sum.splits prod.splits option.splits)

text \<open>The \<^verbatim>\<open>get\<close> of an input and the rest of its iteration, with its log.\<close>

lemma take_item_logger:
  assumes "wq_items (downloaded s) = x # xs"
  shows "\<exists>t. take_item s = Some t \<and> logger t = logger s @ item_log (script s) (cwd s) (files s) x"
  using assms by (cases x) (simp_all add: take_item_Cons process_batch_logger)

text \<open>What an iteration puts on the error queue is what it logs as an error, and all of
  it is of kind \<open>PROCESSING_FAILED\<close>.\<close>

lemma logged_errors_append [simp]: "logged_errors (l1 @ l2) = logged_errors l1 @ logged_errors l2"
  by (induction l1 rule: logged_errors.induct) simp_all

lemma process_batch_error_queue:
  "error_queue (process_batch b s) =
     error_queue s @ logged_errors (item_log (script s) (cwd s) (files s) (Some b))"
  by (simp add: process_batch_def purge_and_forward_def script_failed_def failure_record_def Let_def
      split: sum.splits prod.splits option.splits)

lemma item_log_errors_kind:
  "list_all (\<lambda>r. fj_type r = PROCESSING_FAILED) (logged_errors (item_log sc d f x))"
  by (cases x) (simp_all add: failure_record_def split: sum.splits prod.splits option.splits)

lemma run_step_logged_errors:
  assumes "run_step s = Some t"
  shows "\<exists>es. logged_errors (logger t) = logged_errors (logger s) @ es \<and>
              error_queue t = error_queue s @ es \<and> list_all (\<lambda>r. fj_type r = PROCESSING_FAILED) es"
proof (cases "pc s")
  case Loop_head
  with assms show ?thesis by (auto simp: run_step_def loop_head_def)
next
  case At_get
  then have t: "take_item s = Some t" using assms by (simp add: run_step_def)
  show ?thesis
  proof (cases "wq_items (downloaded s)")
    case Nil
    with t show ?thesis by (auto simp: take_item_def split: if_splits)
  next
    case (Cons x xs)
    with t item_log_errors_kind [of "script s" "cwd s" "files s" x] show ?thesis
      by (cases x) (auto simp: take_item_Cons process_batch_logger process_batch_error_queue)
  qed
qed (use assms in \<open>simp_all add: run_step_def\<close>)

section \<open>The whole run\<close>

lemma run_loop_log:
  assumes "pc s = Loop_head" "\<not> pt_done s" "wq_items (downloaded s) = xs" "wq_closed (downloaded s)"
  shows "logger (run_loop s) = logger s @ log_all (script s) (cwd s) (files s) xs"
  using assms
proof (induction xs arbitrary: s)
  case Nil
  then show ?case by (simp add: run_loop_closed_drained)
next
  case (Cons x xs)
  let ?s1 = "(log_info ''Waiting for next batch to process'' s)\<lparr>pc := At_get\<rparr>"
  have s1: "run_step s = Some ?s1"
    using Cons.prems(1,2) by (simp add: run_step_def loop_head_enter)
  from take_item_logger [of ?s1 x xs] Cons.prems(3) obtain t where
    t: "take_item ?s1 = Some t" and
    lt: "logger t = logger s @ Log_info ''Waiting for next batch to process'' #
                      item_log (script s) (cwd s) (files s) x"
    by auto
  have loop: "run_loop s = run_loop t"
    using s1 t by (simp add: run_loop_step run_step_def)
  show ?case
  proof (cases "process_item (script s) (cwd s) (files s) x")
    case (Inl ef)
    obtain e f' where ef: "ef = (e, f')" by fastforce
    from take_item_Inl [of ?s1 x xs e f'] Cons.prems(3) Inl ef t have "pc t = Raised e"
      by auto
    then have "run_loop t = t" by (simp add: run_loop_stop run_step_def)
    with loop lt Inl show ?thesis by simp
  next
    case (Inr yef)
    obtain y es f' where yef: "yef = (y, es, f')" by (cases yef) fastforce
    from take_item_Inr [of ?s1 x xs y es f'] Cons.prems(2,3) Inr yef t
    have "pc t = Loop_head" "\<not> pt_done t" "wq_items (downloaded t) = xs"
      "wq_closed (downloaded t) = wq_closed (downloaded s)"
      "files t = f'" "script t = script s" "cwd t = cwd s"
      by auto
    with Cons.IH [of t] Cons.prems(4) loop lt Inr yef show ?thesis by simp
  qed
qed

section \<open>Properties\<close>

text \<open>C24 (functional). The log of a whole run: started on a closed queue holding the
  inputs, \<^verbatim>\<open>run\<close> writes exactly \<open>log_all\<close> of them, one \<^verbatim>\<open>Waiting\<close> line and the
  lines of its iteration per input taken, in order, the failure record of each failed
  script at its place, and the final line only when the loop ends normally.\<close>

theorem run_log_spec: "logger (run_on sc f d xs) = log_all sc d f xs"
  using run_loop_log [of "init_thread \<lparr>wq_items = xs, wq_closed = True\<rparr> wq_new [] sc f d" xs]
  by (simp add: init_thread_def)

text \<open>C25 (invariant). In every interleaving of the three threads, the failure records
  the processing thread has logged (line 64) are exactly, and in the same order, the
  \<open>PROCESSING_FAILED\<close> records it has put on the shared error queue (line 65), whether
  the reporter has taken them yet or not: each failure is logged once before it is
  queued, and nothing else, not the closing of the input nor a download failure, is
  logged as an error.\<close>

theorem pipeline_logged_errors:
  assumes "reach (pipe_init sc f d) p"
  shows "logged_errors (logger (proc p)) = proc_errors p"
  using assms
proof (induction rule: reach.induct)
  case refl
  then show ?case by (simp add: pipe_init_def init_thread_def proc_errors_def errors_def)
next
  case (step p q)
  from step.hyps(2) step.IH show ?case
  proof (cases rule: pipe_step.cases)
    case (download_fail r)
    with step.IH show ?thesis by (simp add: fail_input_def proc_errors_def errors_def)
  next
    case upload_get
    with step.IH show ?thesis by (auto simp: proc_errors_def errors_def dest!: take_output_SomeD)
  next
    case report
    with step.IH show ?thesis by (auto simp: proc_errors_def errors_def dest!: report_error_SomeD)
  next
    case (process s')
    from run_step_logged_errors [OF process(2)] obtain es where
      "logged_errors (logger s') = logged_errors (logger (proc p)) @ es"
      "error_queue s' = error_queue (proc p) @ es" "list_all (\<lambda>r. fj_type r = PROCESSING_FAILED) es"
      by blast
    with step.IH process(1) show ?thesis
      by (simp add: proc_errors_def errors_def filter_id_conv list_all_iff)
  qed (simp_all add: put_input_def close_input_def proc_errors_def errors_def)
qed

end
