(* ===== verification/Spec2Isabelle.thy ===== *)
theory Spec2Isabelle
  imports Log_Spec
begin

text \<open>
  \<^bold>\<open>A verification development of transponster's processing stage.\<close>

  \<^bold>\<open>The program.\<close> transponster is a three-thread batch pipeline: a download thread
  puts batches (or \<^verbatim>\<open>None\<close>, the skip marker of a batch it could not produce) on the
  closable queue \<^verbatim>\<open>downloaded\<close> and closes it; the processing thread
  (\<^verbatim>\<open>src/transponster/processing_thread.py\<close>, class \<^verbatim>\<open>ProcessingThread\<close>, method
  \<^verbatim>\<open>run\<close>) takes each slot, runs the user script on the batch's working directory,
  deletes the batch's input folder with \<^verbatim>\<open>shutil.rmtree\<close> when the script succeeds,
  turns a script exception into a \<^verbatim>\<open>FailedJobBatch\<close> on the error queue and a skip
  marker, and forwards the result on \<^verbatim>\<open>to_upload\<close>, which it closes when
  \<^verbatim>\<open>downloaded.get()\<close> raises \<^verbatim>\<open>ClosedException\<close>; an upload thread drains
  \<^verbatim>\<open>to_upload\<close> and a reporter drains the error queue. Only the processing thread is
  in \<^verbatim>\<open>src/\<close>; the queue and the data types of \<^verbatim>\<open>transponster.util\<close> are modelled
  from the spec.

  \<^bold>\<open>Theories.\<close>
  \<^item> \<open>Prelude\<close>: the Python exceptions that reach \<^verbatim>\<open>run\<close> (\<open>exn\<close>, \<open>is_Exception\<close>
    for \<^verbatim>\<open>except Exception\<close>, \<open>exn_repr\<close> for \<^verbatim>\<open>__repr__\<close>; an \<^verbatim>\<open>OSError\<close> carries its
    optional \<^verbatim>\<open>filename\<close>), the path type, the \<open>pt_simps\<close> collection and shared list
    lemmas.
  \<^item> \<open>Wrapped_Queue\<close>: \<^verbatim>\<open>WrappedQueue\<close> as a record of a FIFO list and a closed flag;
    \<open>wq_get\<close> returns \<open>None\<close> where \<^verbatim>\<open>get\<close> blocks (open and empty) and raises
    \<open>ClosedException\<close> on a closed, drained queue. Lemmas characterise each outcome.
  \<^item> \<open>Paths\<close>: paths as component lists, the lexical normalisation \<open>norm_step\<close> and
    \<^verbatim>\<open>str\<close> of a path (\<open>path_str\<close>, line 57).
  \<^item> \<open>Filesystem\<close>: the environment of line 73. The file system is a map from physical
    paths to files, directories and symbolic links; \<open>walk\<close> is the kernel's lookup behind
    \<^verbatim>\<open>os.lstat\<close> and \<^verbatim>\<open>os.stat\<close> (at most 40 links, then \<open>ELOOP\<close>); \<open>rmtree\<close> is
    \<^verbatim>\<open>shutil.rmtree\<close> as Python 3.11 runs it (\<^verbatim>\<open>_rmtree_safe_fd\<close>). It deletes the
    physical tree of a directory, raises \<open>NotADirectoryError\<close> on a file and the lookup's
    error on a missing path, and refuses a symbolic link with an \<^verbatim>\<open>OSError\<close> that has no
    file name. \<open>rm_error\<close> classifies what it raises.
  \<^item> \<open>Realpath\<close>: the environment of line 54. \<^verbatim>\<open>Path(name).resolve()\<close> is
    \<^verbatim>\<open>posixpath._joinrealpath\<close> (\<open>jrp\<close>, a \<open>partial_function (option)\<close> with its
    \<open>seen\<close> map of links), after \<^verbatim>\<open>Path(p)\<close>'s parsing (\<open>path_parts\<close>) and followed
    by pathlib's final \<^verbatim>\<open>stat\<close>, which ignores \<^verbatim>\<open>ENOENT\<close>, turns \<^verbatim>\<open>ELOOP\<close> into
    \<open>RuntimeError\<close> and re-raises \<open>NotADirectoryError\<close> (\<open>path_resolve\<close>).
    \<open>resolve_error\<close> classifies what it raises. Lemmas show that \<open>jrp\<close> returns on every
    finite file system and that its results are well-formed paths.
  \<^item> \<open>Jobs\<close>: \<^verbatim>\<open>JobBatch\<close>, \<^verbatim>\<open>FailedJobBatch\<close>, \<^verbatim>\<open>ErrorType\<close>, queue slots, the
    script as a function of working directory and file system, and log entries.
  \<^item> \<open>Processing_Thread\<close>: the thread's state (\<open>processing_thread\<close>, the attributes of
    \<^verbatim>\<open>__init__\<close> plus file system, working directory and control point \<open>pt_pc\<close>),
    one definition per piece of \<^verbatim>\<open>run\<close> (\<open>loop_guard\<close> line 41, \<open>loop_head\<close>
    41--42, \<open>take_item\<close> 43--53, \<open>skip_batch\<close> 49--52, \<open>process_batch\<close> 53--76,
    \<open>script_failed\<close> 60--67, \<open>purge_and_forward\<close> 69--76, \<open>finish_run\<close> 78--79),
    \<open>run_step\<close> composing them, and \<open>run_loop\<close>, the loop run until it blocks or ends,
    a total function whose termination is proved by the measure \<open>pt_measure\<close> (two per
    queued input plus the distance to the end of an iteration). Claims C6--C10, C13,
    C14, C23: termination on a closed input and the behaviour of every branch; C16, C17:
    the log lines of an iteration, in the source's order; C21: every step keeps the
    thread state well-formed (\<open>thread_wf\<close>).
  \<^item> \<open>Stage_Spec\<close>: the stage's specification \<open>process_all\<close> (spec sections 4.2 and 8),
    a fold over the inputs, and the refinement theorem: \<open>run_loop\<close> on a closed input
    computes it (C1), hence one output per input in order (C2). \<open>crash_by\<close> names the
    exceptions an input can end the stage with.
  \<^item> \<open>Pipeline\<close>: the other threads as environment steps interleaved with \<open>run_step\<close>
    in the step relation \<open>pipe_step\<close>: the download thread puts (\<open>put_input\<close>),
    reports a batch it could not download with a \<open>DOWNLOAD_FAILED\<close> record on the
    shared error queue and a skip marker (\<open>fail_input\<close>), and closes
    (\<open>close_input\<close>); the upload thread takes outputs (\<open>take_output\<close>); a reporter
    drains the error queue (\<open>report_error\<close>). Ghost fields record what was sent,
    received, reported and reported by the download thread, and the initial file
    system. The invariant \<open>pipe_inv\<close> is proved by rule induction over \<open>reach\<close>; the
    claims C3--C5, C11, C12, C15, C18--C20, C22 are derived from it.
  \<^item> \<open>Log_Spec\<close>: the \<^verbatim>\<open>structlog\<close> log of a whole run as a function of the inputs,
    \<open>log_all\<close> (one \<open>item_log\<close> per input after a \<^verbatim>\<open>Waiting\<close> line), and the failure
    records among the log entries (\<open>logged_errors\<close>). \<open>run_loop\<close> writes exactly
    \<open>log_all\<close> (C24, by induction over the inputs); in every interleaving the logged
    failure records are the thread's \<open>PROCESSING_FAILED\<close> records on the shared error
    queue, in order (C25, by rule induction over \<open>reach\<close>).
  \<^item> this theory: the scenario fixtures of the spec's section 8 (one with a download
    failure on the shared error queue, one with symbolic links) and the witnesses.

  \<^bold>\<open>What the lemmas show.\<close> The processing thread implements its specification:
  run alone on a closed input it computes \<open>process_all\<close> (C1), and in every
  interleaving with the other threads what it has produced (outputs, its
  \<open>PROCESSING_FAILED\<close> records, the file system, the exception that ended it) is what
  \<open>process_all\<close> computes on the inputs it has taken so far (C19, refinement), so
  the result does not depend on how the threads are scheduled (C20), and when the
  specification ends normally the upload thread can receive every output and see its
  queue closed (C22). Hence, in every interleaving, outputs correspond one to one and
  in order to inputs (C3), failure records to the batches turned into skip markers
  (C4), the thread writes only \<open>PROCESSING_FAILED\<close> records (C15), and the thread dies
  only of an exception of \<^verbatim>\<open>Path.resolve\<close>, of \<^verbatim>\<open>rmtree\<close> or a \<^verbatim>\<open>BaseException\<close> of
  the script, raised for the last input it took (C18). It closes its output only after
  its input was closed and drained (C5), and on a closed input it runs to its end
  (C6). Each branch of an iteration is described by C7--C10, C13, C14, C23, its log
  lines by C16, C17 and over a whole run by C24 and C25.
  Findings: the \<^verbatim>\<open>done\<close> flag never makes the \<^verbatim>\<open>while\<close> condition false (C11); an
  exception of \<^verbatim>\<open>rmtree\<close> or a \<^verbatim>\<open>BaseException\<close> of the script ends the thread
  without closing \<^verbatim>\<open>to_upload\<close>, leaving the consumed batch without an output and the
  upload thread blocked for ever (C12--C14, C18); so does an exception of
  \<^verbatim>\<open>Path(...).resolve()\<close> (a link loop, or a file where a directory is expected), since
  line 54 is outside the \<^verbatim>\<open>try\<close> (C23); an input folder that is a symbolic link to a
  directory is refused by \<^verbatim>\<open>rmtree\<close>, which ends the thread the same way (C13).

  \<^bold>\<open>Choices and bounds.\<close> Blocking is a missing step (\<open>None\<close>), not fuel: a loop
  that can wait for ever is a property of the environment, and \<open>run_loop\<close> stops
  where the real thread would wait; it is a total function whose termination is proved
  by \<open>pt_measure\<close>. An iteration after the \<^verbatim>\<open>get\<close> runs as one step: the other
  threads touch only the queues, which the thread only writes within the iteration.
  The download thread's failure path is one atomic step (record and skip marker
  together); the processing thread cannot tell the two orders apart, since it never
  reads the error queue. The kernel's lookup \<open>walk\<close> follows at most
  \<open>max_symlinks = 40\<close> links, Linux's \<^verbatim>\<open>MAXSYMLINKS\<close>, and then fails with
  \<open>ELOOP\<close>: that count is the kernel's, not fuel, and \<open>walk\<close> is a total function
  (measure: links left, then names left). \<^verbatim>\<open>_joinrealpath\<close> has no such bound; it is a
  \<open>partial_function (option)\<close> whose \<open>None\<close> (a recursion that does not end) is
  proved impossible on every finite file system (lemma \<open>jrp_terminates\<close>), so the
  \<^verbatim>\<open>RecursionError\<close> that \<open>path_resolve\<close> returns there never arises.

  \<^bold>\<open>Not modelled.\<close> The script's own behaviour (any function of directory and file
  system is allowed), the format of \<^verbatim>\<open>FailedJobBatch.get_error_message\<close> (the
  logged record is kept instead), file contents, permissions and the errors they cause
  (\<^verbatim>\<open>EACCES\<close>), the root directory (always present, not in the map), the
  Python recursion limit (never reached on a finite file system), the changes
  of \<^verbatim>\<open>pathlib\<close> and \<^verbatim>\<open>shutil\<close> after Python 3.12 (\<^verbatim>\<open>resolve\<close> without the
  loop check, \<^verbatim>\<open>rmtree\<close> with \<^verbatim>\<open>onexc\<close>), the CLI and thread start-up
  (configuration parsing and thread creation, no state of the stage), and what the
  download and upload threads do with the data beyond their queue operations; their
  sources are not part of \<^verbatim>\<open>src/\<close>. The models of \<^verbatim>\<open>Path.resolve\<close> and
  \<^verbatim>\<open>shutil.rmtree\<close> describe the environment the thread calls; their own lemmas are
  not claims about the program. Lines 1--19 of \<^verbatim>\<open>processing_thread.py\<close> are the module
  docstring and imports and have no behaviour of their own; every other line of the
  file is translated by a definition of the development.
\<close>

section \<open>Scenarios\<close>

text \<open>The fixtures of the witnesses: a process whose working directory is \<^verbatim>\<open>/work\<close>,
  input folders under \<^verbatim>\<open>/in\<close>, working directories under \<^verbatim>\<open>/tmp\<close>, and a script that
  writes a \<^verbatim>\<open>result\<close> file into the working directory, except for batch 2, where it
  raises \<^verbatim>\<open>ValueError\<close>, and batch 5, where it is interrupted.\<close>

definition ex_cwd :: path where
  "ex_cwd = [''work'']"

definition ex_b1 :: job_batch where
  "ex_b1 = \<lparr>tmp_dir_name = ''/tmp/b1'', input_folder_path = ''/in/b1''\<rparr>"

definition ex_b2 :: job_batch where
  "ex_b2 = \<lparr>tmp_dir_name = ''/tmp/b2'', input_folder_path = ''/in/b2''\<rparr>"

definition ex_b3 :: job_batch where
  "ex_b3 = \<lparr>tmp_dir_name = ''/tmp//b3/'', input_folder_path = ''../in/b3''\<rparr>"

definition ex_b4 :: job_batch where
  "ex_b4 = \<lparr>tmp_dir_name = ''/tmp/b4'', input_folder_path = ''/in/b4''\<rparr>"

definition ex_b5 :: job_batch where
  "ex_b5 = \<lparr>tmp_dir_name = ''/tmp/b5'', input_folder_path = ''/in/b5''\<rparr>"

definition ex_script :: script where
  "ex_script wd f =
     (if wd = [''tmp'', ''b2''] then (Some (Exc ''ValueError('bad input')''), f)
      else if wd = [''tmp'', ''b5''] then (Some (BaseExc ''KeyboardInterrupt()''), f)
      else (None, f(wd @ [''result''] \<mapsto> File)))"

definition ex_fs :: fs where
  "ex_fs =
     [[''in''] \<mapsto> Dir, [''tmp''] \<mapsto> Dir, [''work''] \<mapsto> Dir,
      [''in'', ''b1''] \<mapsto> Dir, [''in'', ''b1'', ''data''] \<mapsto> File, [''in'', ''b2''] \<mapsto> Dir,
      [''in'', ''b3''] \<mapsto> Dir, [''in'', ''b5''] \<mapsto> Dir, [''tmp'', ''b1''] \<mapsto> Dir,
      [''tmp'', ''b2''] \<mapsto> Dir, [''tmp'', ''b3''] \<mapsto> Dir, [''tmp'', ''b4''] \<mapsto> Dir]"

text \<open>A file system with symbolic links: \<^verbatim>\<open>/tmp/b6\<close> points to itself,
  \<^verbatim>\<open>/tmp/b7\<close> is a relative link to \<^verbatim>\<open>b1\<close> beside it, and the input folder
  \<^verbatim>\<open>/in/b7\<close> is a link to the directory \<^verbatim>\<open>/in/b2\<close>.\<close>

definition ex_lfs :: fs where
  "ex_lfs = ex_fs([''tmp'', ''b6''] \<mapsto> Link ''/tmp/b6'', [''tmp'', ''b7''] \<mapsto> Link ''b1'',
                  [''in'', ''b7''] \<mapsto> Link ''/in/b2'')"

definition ex_b6 :: job_batch where
  "ex_b6 = \<lparr>tmp_dir_name = ''/tmp/b6'', input_folder_path = ''/in/b6''\<rparr>"

definition ex_b7 :: job_batch where
  "ex_b7 = \<lparr>tmp_dir_name = ''/tmp/b7'', input_folder_path = ''/in/b7''\<rparr>"

text \<open>A batch whose working directory lies below the file \<^verbatim>\<open>/in/b1/data\<close>.\<close>

definition ex_b8 :: job_batch where
  "ex_b8 = \<lparr>tmp_dir_name = ''/in/b1/data/w'', input_folder_path = ''/in/b8''\<rparr>"

text \<open>Scenario E of the spec: three batches, the second fails.\<close>

definition ex_inputs :: "item list" where
  "ex_inputs = [Some ex_b1, Some ex_b2, Some ex_b3]"

text \<open>A thread inside \<^verbatim>\<open>get\<close> on a closed queue holding \<open>xs\<close>.\<close>

definition ex_thread :: "item list \<Rightarrow> processing_thread" where
  "ex_thread xs =
     (init_thread \<lparr>wq_items = xs, wq_closed = True\<rparr> wq_new [] ex_script ex_fs ex_cwd)\<lparr>pc := At_get\<rparr>"

text \<open>The same thread in a process whose file system has the links of \<open>ex_lfs\<close>.\<close>

definition ex_link_thread :: "item list \<Rightarrow> processing_thread" where
  "ex_link_thread xs = (ex_thread xs)\<lparr>files := ex_lfs\<rparr>"

text \<open>The pipeline after the download thread has sent \<open>xs\<close> and closed its queue, and
  the processing thread has run as far as it can.\<close>

definition ex_loaded :: "item list \<Rightarrow> pipeline" where
  "ex_loaded xs = close_input (fold put_input xs (pipe_init ex_script ex_fs ex_cwd))"

definition ex_pipe :: "item list \<Rightarrow> pipeline" where
  "ex_pipe xs = (ex_loaded xs)\<lparr>proc := run_loop (proc (ex_loaded xs))\<rparr>"

text \<open>The pipeline after batch 1 has been sent and processed, with \<^verbatim>\<open>downloaded\<close>
  momentarily empty and still open: the thread is back at the loop head.\<close>

definition ex_mid :: pipeline where
  "ex_mid =
     (let p = put_input (Some ex_b1) (pipe_init ex_script ex_fs ex_cwd);
          p1 = p\<lparr>proc := the (run_step (proc p))\<rparr>
      in p1\<lparr>proc := the (run_step (proc p1))\<rparr>)"

text \<open>The shared error queue: the download thread reports batch 4 as not downloaded and
  sends a skip marker for it, then sends batches 2 and 1 and closes its queue.\<close>

definition ex_dl_record :: failed_job_batch where
  "ex_dl_record = \<lparr>fj_batch = ex_b4, fj_error = ''ConnectionError()'', fj_type = DOWNLOAD_FAILED\<rparr>"

definition ex_shared :: pipeline where
  "ex_shared =
     (let p = close_input (fold put_input [Some ex_b2, Some ex_b1]
                (fail_input ex_dl_record (pipe_init ex_script ex_fs ex_cwd)))
      in p\<lparr>proc := run_loop (proc p)\<rparr>)"

text \<open>Another schedule of scenario E: batch 1 is sent and processed, the upload thread
  takes its output, and only then are batches 2 and 3 sent and the queue closed.\<close>

definition ex_early :: pipeline where
  "ex_early =
     (let p = put_input (Some ex_b1) (pipe_init ex_script ex_fs ex_cwd)
      in the (take_output (p\<lparr>proc := run_loop (proc p)\<rparr>)))"

definition ex_interleaved :: pipeline where
  "ex_interleaved =
     (let p = close_input (fold put_input [Some ex_b2, Some ex_b3] ex_early)
      in p\<lparr>proc := run_loop (proc p)\<rparr>)"

lemmas ex_defs = ex_cwd_def ex_b1_def ex_b2_def ex_b3_def ex_b4_def ex_b5_def ex_script_def ex_fs_def
  ex_lfs_def ex_b6_def ex_b7_def ex_b8_def ex_link_thread_def
  ex_inputs_def ex_thread_def ex_loaded_def ex_pipe_def ex_mid_def ex_dl_record_def ex_shared_def ex_early_def
  ex_interleaved_def

lemmas eval_defs = run_loop.simps run_step_def loop_head_def loop_guard_def take_item_def
  process_batch_def purge_and_forward_def script_failed_def skip_batch_def finish_run_def
  log_info_def path_resolve_def path_parts_def jrp_link_free stat_path_def path_str_def walk.simps lstat_path_def start_dir_def
  is_abs_def rmtree_def in_tree_def Let_def wq_defs wq_get_def
  init_thread_def pipe_init_def put_input_def fail_input_def close_input_def failure_record_def

text \<open>What evaluates \<^verbatim>\<open>Path.resolve\<close> and the lookups of \<^verbatim>\<open>rmtree\<close> through links.\<close>

lemmas link_defs = path_resolve_def path_parts_def jrp_simps link_target.simps pjoin_def stat_path_def
  lstat_path_def walk.simps start_dir_def path_str_def max_symlinks_def is_abs_def

lemma ex_loaded_reach: "reach (pipe_init ex_script ex_fs ex_cwd) (ex_loaded xs)"
  unfolding ex_loaded_def
  by (intro reach_close reach_puts reach.refl) (simp add: pipe_init_def init_thread_def)

lemma ex_pipe_reach: "reach (pipe_init ex_script ex_fs ex_cwd) (ex_pipe xs)"
  unfolding ex_pipe_def by (intro reach_run_loop ex_loaded_reach)

lemma ex_run_on_returned: "pc (run_on ex_script ex_fs ex_cwd ex_inputs) = Returned"
proof -
  obtain ys es F r where pa: "process_all ex_script ex_cwd ex_fs ex_inputs = (ys, es, F, r)"
    by (cases "process_all ex_script ex_cwd ex_fs ex_inputs") auto
  have "r = None"
    using pa by (simp add: ex_defs eval_defs)
  with run_on_process_all [OF pa] show ?thesis by simp
qed

lemma ex_shared_reach: "reach (pipe_init ex_script ex_fs ex_cwd) ex_shared"
proof -
  have "reach (pipe_init ex_script ex_fs ex_cwd) (fail_input ex_dl_record (pipe_init ex_script ex_fs ex_cwd))"
    by (rule reach.step [OF reach.refl pipe_step.download_fail])
       (simp_all add: pipe_init_def init_thread_def ex_dl_record_def)
  moreover have "\<not> wq_closed (downloaded (proc (fail_input ex_dl_record (pipe_init ex_script ex_fs ex_cwd))))"
    by (simp add: fail_input_def pipe_init_def init_thread_def)
  ultimately have "reach (pipe_init ex_script ex_fs ex_cwd)
      (fold put_input [Some ex_b2, Some ex_b1] (fail_input ex_dl_record (pipe_init ex_script ex_fs ex_cwd)))"
    by (rule reach_puts)
  then show ?thesis
    unfolding ex_shared_def Let_def by (intro reach_run_loop reach_close)
qed

lemma ex_interleaved_reach: "reach (pipe_init ex_script ex_fs ex_cwd) ex_interleaved"
proof -
  let ?p = "put_input (Some ex_b1) (pipe_init ex_script ex_fs ex_cwd)"
  have "reach (pipe_init ex_script ex_fs ex_cwd) ?p"
    by (rule reach.step [OF reach.refl pipe_step.download_put]) (simp add: pipe_init_def init_thread_def)
  then have r: "reach (pipe_init ex_script ex_fs ex_cwd) (?p\<lparr>proc := run_loop (proc ?p)\<rparr>)"
    by (rule reach_run_loop)
  have "take_output (?p\<lparr>proc := run_loop (proc ?p)\<rparr>) \<noteq> None"
    by (simp add: ex_defs eval_defs take_output_def)
  then obtain q where q: "take_output (?p\<lparr>proc := run_loop (proc ?p)\<rparr>) = Some q" by blast
  with r have "reach (pipe_init ex_script ex_fs ex_cwd) ex_early"
    by (simp add: ex_early_def Let_def reach.step pipe_step.upload_get)
  moreover have "\<not> wq_closed (downloaded (proc ex_early))"
    by (simp add: ex_defs eval_defs take_output_def)
  ultimately have "reach (pipe_init ex_script ex_fs ex_cwd) (fold put_input [Some ex_b2, Some ex_b3] ex_early)"
    by (rule reach_puts)
  then show ?thesis
    unfolding ex_interleaved_def Let_def by (intro reach_run_loop reach_close)
qed

section \<open>Witnesses\<close>

theorem run_implements_spec_witness:
  "wq_items (to_upload (run_on ex_script ex_fs ex_cwd ex_inputs)) = [Some ex_b1, None, Some ex_b3] \<and>
   error_queue (run_on ex_script ex_fs ex_cwd ex_inputs) =
     [failure_record ex_b2 (Exc ''ValueError('bad input')'')] \<and>
   files (run_on ex_script ex_fs ex_cwd ex_inputs) [''in'', ''b1''] = None \<and>
   files (run_on ex_script ex_fs ex_cwd ex_inputs) [''in'', ''b1'', ''data''] = None \<and>
   files (run_on ex_script ex_fs ex_cwd ex_inputs) [''in'', ''b2''] = Some Dir \<and>
   files (run_on ex_script ex_fs ex_cwd ex_inputs) [''in'', ''b3''] = None \<and>
   pc (run_on ex_script ex_fs ex_cwd ex_inputs) = Returned \<and>
   wq_closed (to_upload (run_on ex_script ex_fs ex_cwd ex_inputs))"
proof -
  have "\<exists>F. process_all ex_script ex_cwd ex_fs ex_inputs =
          ([Some ex_b1, None, Some ex_b3], [failure_record ex_b2 (Exc ''ValueError('bad input')'')], F, None) \<and>
          F [''in'', ''b1''] = None \<and> F [''in'', ''b1'', ''data''] = None \<and>
          F [''in'', ''b2''] = Some Dir \<and> F [''in'', ''b3''] = None"
    by (simp add: ex_defs eval_defs)
  then obtain F where pa: "process_all ex_script ex_cwd ex_fs ex_inputs =
          ([Some ex_b1, None, Some ex_b3], [failure_record ex_b2 (Exc ''ValueError('bad input')'')], F, None)"
    and F: "F [''in'', ''b1''] = None" "F [''in'', ''b1'', ''data''] = None"
      "F [''in'', ''b2''] = Some Dir" "F [''in'', ''b3''] = None"
    by blast
  show ?thesis
    using run_implements_spec [OF pa] F by simp
qed

theorem run_one_output_per_input_witness:
  "pc (run_on ex_script ex_fs ex_cwd ex_inputs) = Returned \<and>
   list_all2 slot_ok ex_inputs (wq_items (to_upload (run_on ex_script ex_fs ex_cwd ex_inputs))) \<and>
   map fj_batch (error_queue (run_on ex_script ex_fs ex_cwd ex_inputs)) = [ex_b2] \<and>
   list_all (\<lambda>r. fj_type r = PROCESSING_FAILED) (error_queue (run_on ex_script ex_fs ex_cwd ex_inputs))"
proof -
  obtain ys es F r where pa: "process_all ex_script ex_cwd ex_fs ex_inputs = (ys, es, F, r)"
    by (cases "process_all ex_script ex_cwd ex_fs ex_inputs") auto
  have "ys = [Some ex_b1, None, Some ex_b3] \<and> r = None"
    using pa by (simp add: ex_defs eval_defs)
  with run_on_process_all [OF pa] have ret: "pc (run_on ex_script ex_fs ex_cwd ex_inputs) = Returned"
    and out: "wq_items (to_upload (run_on ex_script ex_fs ex_cwd ex_inputs)) = [Some ex_b1, None, Some ex_b3]"
    by simp_all
  from run_one_output_per_input [OF ret] out ret show ?thesis
    by (simp add: ex_inputs_def)
qed


theorem run_step_script_exception_witness:
  "\<exists>t. run_step (ex_thread [Some ex_b2]) = Some t \<and> pc t = Loop_head \<and> wq_items (downloaded t) = [] \<and>
       wq_items (to_upload t) = [None] \<and>
       error_queue t = [\<lparr>fj_batch = ex_b2, fj_error = ''ValueError('bad input')'', fj_type = PROCESSING_FAILED\<rparr>] \<and>
       last (logger t) =
         Log_error \<lparr>fj_batch = ex_b2, fj_error = ''ValueError('bad input')'', fj_type = PROCESSING_FAILED\<rparr> \<and>
       files t = ex_fs"
proof -
  have "pc (ex_thread [Some ex_b2]) = At_get" "wq_items (downloaded (ex_thread [Some ex_b2])) = [Some ex_b2]"
    "work_dir (ex_thread [Some ex_b2]) ex_b2 = Inr [''tmp'', ''b2'']"
    "script (ex_thread [Some ex_b2]) [''tmp'', ''b2''] (files (ex_thread [Some ex_b2])) =
       (Some (Exc ''ValueError('bad input')''), ex_fs)"
    "is_Exception (Exc ''ValueError('bad input')'')"
    by (simp_all add: ex_defs eval_defs)
  from run_step_script_exception [OF this] show ?thesis
    by (simp add: ex_thread_def init_thread_def)
qed

theorem run_step_skip_marker_witness:
  "\<exists>t. run_step (ex_thread [None]) = Some t \<and> pc t = Loop_head \<and> wq_items (downloaded t) = [] \<and>
       wq_items (to_upload t) = [None] \<and> error_queue t = [] \<and> files t = ex_fs"
proof -
  have "pc (ex_thread [None]) = At_get" "wq_items (downloaded (ex_thread [None])) = [None]"
    by (simp_all add: ex_thread_def init_thread_def)
  from run_step_skip_marker [OF this] show ?thesis
    by (simp add: ex_thread_def init_thread_def)
qed

theorem run_step_closed_input_witness:
  "\<exists>t. run_step (ex_thread []) = Some t \<and> pc t = Returned \<and> pt_done t \<and> wq_closed (to_upload t) \<and>
       wq_items (to_upload t) = [] \<and> run_step t = None"
proof -
  have "pc (ex_thread []) = At_get" "wq_items (downloaded (ex_thread [])) = []"
    "wq_closed (downloaded (ex_thread []))"
    by (simp_all add: ex_thread_def init_thread_def)
  from run_step_closed_input [OF this] show ?thesis
    by (simp add: ex_thread_def init_thread_def)
qed

theorem run_step_purge_failure_witness:
  "\<exists>t e. run_step (ex_link_thread [Some ex_b7]) = Some t \<and> pc t = Raised e \<and> rm_error ''/in/b7'' e \<and>
         run_step t = None \<and> wq_items (downloaded t) = [] \<and> to_upload t = wq_new \<and> error_queue t = []"
proof -
  have "pc (ex_link_thread [Some ex_b7]) = At_get"
    "wq_items (downloaded (ex_link_thread [Some ex_b7])) = [Some ex_b7]"
    "work_dir (ex_link_thread [Some ex_b7]) ex_b7 = Inr [''tmp'', ''b1'']"
    "script (ex_link_thread [Some ex_b7]) [''tmp'', ''b1''] (files (ex_link_thread [Some ex_b7])) =
       (None, ex_lfs([''tmp'', ''b1'', ''result''] \<mapsto> File))"
    "\<not> (\<exists>a. lstat_path (ex_lfs([''tmp'', ''b1'', ''result''] \<mapsto> File)) (cwd (ex_link_thread [Some ex_b7]))
             (input_folder_path ex_b7) = Inr a \<and> (ex_lfs([''tmp'', ''b1'', ''result''] \<mapsto> File)) a = Some Dir)"
    by (simp_all add: ex_defs init_thread_def link_defs)
  from run_step_purge_failure [OF this] show ?thesis
    by (simp add: ex_link_thread_def ex_thread_def init_thread_def ex_b7_def)
qed

theorem run_step_base_exception_witness:
  "\<exists>t. run_step (ex_thread [Some ex_b5]) = Some t \<and> pc t = Raised (BaseExc ''KeyboardInterrupt()'') \<and>
       run_step t = None \<and> to_upload t = wq_new \<and> error_queue t = []"
proof -
  have "pc (ex_thread [Some ex_b5]) = At_get" "wq_items (downloaded (ex_thread [Some ex_b5])) = [Some ex_b5]"
    "work_dir (ex_thread [Some ex_b5]) ex_b5 = Inr [''tmp'', ''b5'']"
    "script (ex_thread [Some ex_b5]) [''tmp'', ''b5''] (files (ex_thread [Some ex_b5])) =
       (Some (BaseExc ''KeyboardInterrupt()''), ex_fs)"
    "\<not> is_Exception (BaseExc ''KeyboardInterrupt()'')"
    by (simp_all add: ex_defs eval_defs)
  from run_step_base_exception [OF this] show ?thesis
    by (simp add: ex_thread_def init_thread_def)
qed

theorem run_loop_terminates_on_closed_input_witness:
  "wq_closed (downloaded (ex_thread ex_inputs)) \<and>
   (pc (run_loop (ex_thread ex_inputs)) = Returned \<or> (\<exists>e. pc (run_loop (ex_thread ex_inputs)) = Raised e))"
proof -
  have h: "wq_closed (downloaded (ex_thread ex_inputs))"
    by (simp add: ex_thread_def init_thread_def)
  from h run_loop_terminates_on_closed_input [OF h] show ?thesis by simp
qed

theorem pipeline_outputs_match_inputs_witness:
  "reach (pipe_init ex_script ex_fs ex_cwd) (ex_pipe ex_inputs) \<and> \<not> is_raised (pc (proc (ex_pipe ex_inputs))) \<and>
   list_all2 slot_ok (consumed (ex_pipe ex_inputs)) (outputs (ex_pipe ex_inputs)) \<and>
   consumed (ex_pipe ex_inputs) = ex_inputs \<and> outputs (ex_pipe ex_inputs) = [Some ex_b1, None, Some ex_b3]"
proof -
  have r: "reach (pipe_init ex_script ex_fs ex_cwd) (ex_pipe ex_inputs)" by (rule ex_pipe_reach)
  have n: "\<not> is_raised (pc (proc (ex_pipe ex_inputs)))"
    by (simp add: ex_defs eval_defs)
  have "consumed (ex_pipe ex_inputs) = ex_inputs \<and> outputs (ex_pipe ex_inputs) = [Some ex_b1, None, Some ex_b3]"
    by (simp add: ex_defs eval_defs consumed_def outputs_def)
  with r n pipeline_outputs_match_inputs [OF r n] show ?thesis by simp
qed

theorem pipeline_errors_match_skips_witness:
  "reach (pipe_init ex_script ex_fs ex_cwd) ex_shared \<and>
   map fj_batch (proc_errors ex_shared) = failed_batches (consumed ex_shared) (outputs ex_shared) \<and>
   consumed ex_shared = [None, Some ex_b2, Some ex_b1] \<and> map fj_batch (proc_errors ex_shared) = [ex_b2]"
proof -
  have r: "reach (pipe_init ex_script ex_fs ex_cwd) ex_shared" by (rule ex_shared_reach)
  have "consumed ex_shared = [None, Some ex_b2, Some ex_b1] \<and> map fj_batch (proc_errors ex_shared) = [ex_b2]"
    by (simp add: ex_defs eval_defs consumed_def proc_errors_def errors_def)
  with r pipeline_errors_match_skips [OF r] show ?thesis by simp
qed

theorem pipeline_output_closed_after_input_witness:
  "reach (pipe_init ex_script ex_fs ex_cwd) (ex_pipe ex_inputs) \<and> wq_closed (to_upload (proc (ex_pipe ex_inputs))) \<and>
   pc (proc (ex_pipe ex_inputs)) = Returned \<and> consumed (ex_pipe ex_inputs) = sent (ex_pipe ex_inputs)"
proof -
  have r: "reach (pipe_init ex_script ex_fs ex_cwd) (ex_pipe ex_inputs)" by (rule ex_pipe_reach)
  have c: "wq_closed (to_upload (proc (ex_pipe ex_inputs)))"
    by (simp add: ex_defs eval_defs)
  from r c pipeline_output_closed_after_input [OF r c] show ?thesis by simp
qed

theorem pipeline_errors_processing_failed_witness:
  "reach (pipe_init ex_script ex_fs ex_cwd) ex_shared \<and>
   filter (\<lambda>r. fj_type r \<noteq> PROCESSING_FAILED) (errors ex_shared) = dl_failed ex_shared \<and>
   dl_failed ex_shared = [ex_dl_record] \<and> length (errors ex_shared) = 2"
proof -
  have r: "reach (pipe_init ex_script ex_fs ex_cwd) ex_shared" by (rule ex_shared_reach)
  have "dl_failed ex_shared = [ex_dl_record] \<and> length (errors ex_shared) = 2"
    by (simp add: ex_defs eval_defs errors_def)
  with r pipeline_errors_processing_failed [OF r] show ?thesis by simp
qed

theorem loop_guard_never_exits_witness:
  "reach (pipe_init ex_script ex_fs ex_cwd) ex_mid \<and> pc (proc ex_mid) = Loop_head \<and>
   wq_items (downloaded (proc ex_mid)) = [] \<and> \<not> wq_closed (downloaded (proc ex_mid)) \<and>
   loop_guard (proc ex_mid) \<and> pc (loop_head (proc ex_mid)) = At_get"
proof -
  let ?p = "put_input (Some ex_b1) (pipe_init ex_script ex_fs ex_cwd)"
  let ?p1 = "?p\<lparr>proc := the (run_step (proc ?p))\<rparr>"
  have r0: "reach (pipe_init ex_script ex_fs ex_cwd) ?p"
    by (rule reach.step [OF reach.refl pipe_step.download_put]) (simp add: pipe_init_def init_thread_def)
  have r1: "reach (pipe_init ex_script ex_fs ex_cwd) ?p1"
    by (rule reach_run_step [OF r0]) (simp add: ex_defs eval_defs)
  have r: "reach (pipe_init ex_script ex_fs ex_cwd) ex_mid"
    unfolding ex_mid_def Let_def
    by (rule reach_run_step [OF r1]) (simp add: ex_defs eval_defs)
  have h: "pc (proc ex_mid) = Loop_head" "wq_items (downloaded (proc ex_mid)) = []"
    "\<not> wq_closed (downloaded (proc ex_mid))"
    by (simp_all add: ex_defs eval_defs)
  from r h loop_guard_never_exits [OF r h(1)] show ?thesis by simp
qed

theorem crash_leaves_output_open_witness:
  "reach (pipe_init ex_script ex_fs ex_cwd) (ex_pipe [Some ex_b4]) \<and>
   pc (proc (ex_pipe [Some ex_b4])) = Raised (FileNotFoundError ''/in/b4'') \<and>
   reach (ex_pipe [Some ex_b4]) (close_input (ex_pipe [Some ex_b4])) \<and>
   pc (proc (close_input (ex_pipe [Some ex_b4]))) = Raised (FileNotFoundError ''/in/b4'') \<and>
   \<not> wq_closed (to_upload (proc (close_input (ex_pipe [Some ex_b4]))))"
proof -
  have r: "reach (pipe_init ex_script ex_fs ex_cwd) (ex_pipe [Some ex_b4])" by (rule ex_pipe_reach)
  have e: "pc (proc (ex_pipe [Some ex_b4])) = Raised (FileNotFoundError ''/in/b4'')"
    by (simp add: ex_defs eval_defs)
  have q: "reach (ex_pipe [Some ex_b4]) (close_input (ex_pipe [Some ex_b4]))"
    by (rule reach_close [OF reach.refl])
  from r e q crash_leaves_output_open [OF r e q] show ?thesis by simp
qed

theorem iteration_log_success_witness:
  "\<exists>s1 s2. run_step ((ex_thread [Some ex_b1])\<lparr>pc := Loop_head\<rparr>) = Some s1 \<and> run_step s1 = Some s2 \<and>
     logger s2 =
       [Log_info ''Waiting for next batch to process'', Log_info ''Got batch at folder /tmp/b1'',
        Log_info ''Running script on /tmp/b1'', Log_info ''Finished running script on /tmp/b1, removing input'']"
proof -
  let ?s = "(ex_thread [Some ex_b1])\<lparr>pc := Loop_head\<rparr>"
  have h: "pc ?s = Loop_head" "\<not> pt_done ?s" "wq_items (downloaded ?s) = [Some ex_b1]"
    "work_dir ?s ex_b1 = Inr [''tmp'', ''b1'']"
    "script ?s [''tmp'', ''b1''] (files ?s) = (None, ex_fs([''tmp'', ''b1'', ''result''] \<mapsto> File))"
    by (simp_all add: ex_defs eval_defs)
  have "path_str [''tmp'', ''b1''] = ''/tmp/b1''" "logger ?s = []"
    by (simp_all add: ex_defs eval_defs path_str_def)
  with iteration_log_success [OF h] show ?thesis by (simp add: ex_b1_def)
qed

theorem iteration_log_failure_witness:
  "\<exists>s1 s2 r. run_step ((ex_thread [Some ex_b2])\<lparr>pc := Loop_head\<rparr>) = Some s1 \<and> run_step s1 = Some s2 \<and>
     error_queue s2 = [r] \<and>
     logger s2 =
       [Log_info ''Waiting for next batch to process'', Log_info ''Got batch at folder /tmp/b2'',
        Log_info ''Running script on /tmp/b2'', Log_error r] \<and>
     fj_batch r = ex_b2 \<and> fj_error r = ''ValueError('bad input')'' \<and> fj_type r = PROCESSING_FAILED"
proof -
  let ?s = "(ex_thread [Some ex_b2])\<lparr>pc := Loop_head\<rparr>"
  have h: "pc ?s = Loop_head" "\<not> pt_done ?s" "wq_items (downloaded ?s) = [Some ex_b2]"
    "work_dir ?s ex_b2 = Inr [''tmp'', ''b2'']"
    "script ?s [''tmp'', ''b2''] (files ?s) = (Some (Exc ''ValueError('bad input')''), ex_fs)"
    "is_Exception (Exc ''ValueError('bad input')'')"
    by (simp_all add: ex_defs eval_defs)
  have "path_str [''tmp'', ''b2''] = ''/tmp/b2''" "logger ?s = []" "error_queue ?s = []"
    by (simp_all add: ex_defs eval_defs path_str_def)
  with iteration_log_failure [OF h] show ?thesis by (simp add: ex_b2_def)
qed

theorem pipeline_crash_cause_witness:
  "reach (pipe_init ex_script ex_fs ex_cwd) (ex_pipe [Some ex_b1, Some ex_b5]) \<and>
   pc (proc (ex_pipe [Some ex_b1, Some ex_b5])) = Raised (BaseExc ''KeyboardInterrupt()'') \<and>
   length (consumed (ex_pipe [Some ex_b1, Some ex_b5])) = Suc (length (outputs (ex_pipe [Some ex_b1, Some ex_b5]))) \<and>
   crash_by (BaseExc ''KeyboardInterrupt()'') (last (consumed (ex_pipe [Some ex_b1, Some ex_b5]))) \<and>
   last (consumed (ex_pipe [Some ex_b1, Some ex_b5])) = Some ex_b5"
proof -
  have r: "reach (pipe_init ex_script ex_fs ex_cwd) (ex_pipe [Some ex_b1, Some ex_b5])" by (rule ex_pipe_reach)
  have e: "pc (proc (ex_pipe [Some ex_b1, Some ex_b5])) = Raised (BaseExc ''KeyboardInterrupt()'')"
    by (simp add: ex_defs eval_defs)
  have "last (consumed (ex_pipe [Some ex_b1, Some ex_b5])) = Some ex_b5"
    by (simp add: ex_defs eval_defs consumed_def)
  with r e pipeline_crash_cause [OF r e] show ?thesis by simp
qed

theorem pipeline_refines_spec_witness:
  "reach (pipe_init ex_script ex_fs ex_cwd) ex_shared \<and>
   process_all ex_script ex_cwd ex_fs (consumed ex_shared) =
     (outputs ex_shared, proc_errors ex_shared, files (proc ex_shared), raised_exn (pc (proc ex_shared))) \<and>
   consumed ex_shared = [None, Some ex_b2, Some ex_b1] \<and>
   outputs ex_shared = [None, None, Some ex_b1] \<and> raised_exn (pc (proc ex_shared)) = None"
proof -
  have r: "reach (pipe_init ex_script ex_fs ex_cwd) ex_shared" by (rule ex_shared_reach)
  have "consumed ex_shared = [None, Some ex_b2, Some ex_b1] \<and> outputs ex_shared = [None, None, Some ex_b1] \<and>
        raised_exn (pc (proc ex_shared)) = None"
    by (simp add: ex_defs eval_defs consumed_def outputs_def)
  with r pipeline_refines_spec [OF r] show ?thesis by simp
qed

theorem pipeline_schedule_independent_witness:
  "reach (pipe_init ex_script ex_fs ex_cwd) (ex_pipe ex_inputs) \<and>
   reach (pipe_init ex_script ex_fs ex_cwd) ex_interleaved \<and>
   pc (proc (ex_pipe ex_inputs)) = Returned \<and> pc (proc ex_interleaved) = Returned \<and>
   sent (ex_pipe ex_inputs) = sent ex_interleaved \<and>
   received ex_interleaved = [Some ex_b1] \<and> received (ex_pipe ex_inputs) = [] \<and>
   outputs (ex_pipe ex_inputs) = outputs ex_interleaved \<and>
   proc_errors (ex_pipe ex_inputs) = proc_errors ex_interleaved \<and>
   files (proc (ex_pipe ex_inputs)) = files (proc ex_interleaved)"
proof -
  have r1: "reach (pipe_init ex_script ex_fs ex_cwd) (ex_pipe ex_inputs)" by (rule ex_pipe_reach)
  have r2: "reach (pipe_init ex_script ex_fs ex_cwd) ex_interleaved" by (rule ex_interleaved_reach)
  have h: "pc (proc (ex_pipe ex_inputs)) = Returned" "pc (proc ex_interleaved) = Returned"
    "sent (ex_pipe ex_inputs) = sent ex_interleaved"
    by (simp_all add: ex_defs eval_defs take_output_def)
  have "received ex_interleaved = [Some ex_b1] \<and> received (ex_pipe ex_inputs) = []"
    by (simp add: ex_defs eval_defs take_output_def)
  with r1 r2 h pipeline_schedule_independent [OF r1 r2 h] show ?thesis by simp
qed

theorem run_step_thread_wf_witness:
  "thread_wf (ex_thread []) \<and> run_step (ex_thread []) \<noteq> None \<and>
   thread_wf (the (run_step (ex_thread []))) \<and> pc (the (run_step (ex_thread []))) = Returned"
proof -
  have w: "thread_wf (ex_thread [])"
    by (simp add: ex_defs init_thread_def thread_wf_def wf_path_def wf_comp_def)
  have "run_step (ex_thread []) \<noteq> None" "pc (the (run_step (ex_thread []))) = Returned"
    by (simp_all add: ex_defs eval_defs)
  moreover from this(1) obtain t where s: "run_step (ex_thread []) = Some t" by blast
  ultimately show ?thesis using w run_step_thread_wf [OF w s] by simp
qed

theorem pipeline_upload_receives_all_witness:
  "reach (pipe_init ex_script ex_fs ex_cwd) (ex_loaded ex_inputs) \<and>
   wq_closed (downloaded (proc (ex_loaded ex_inputs))) \<and>
   (\<exists>es F. process_all ex_script ex_cwd ex_fs (sent (ex_loaded ex_inputs)) =
             ([Some ex_b1, None, Some ex_b3], es, F, None)) \<and>
   (\<exists>q. reach (ex_loaded ex_inputs) q \<and> received q = [Some ex_b1, None, Some ex_b3] \<and>
        wq_items (to_upload (proc q)) = [] \<and> wq_closed (to_upload (proc q)))"
proof -
  have r: "reach (pipe_init ex_script ex_fs ex_cwd) (ex_loaded ex_inputs)" by (rule ex_loaded_reach)
  have c: "wq_closed (downloaded (proc (ex_loaded ex_inputs)))"
    by (simp add: ex_loaded_def close_input_def)
  have "\<exists>es F. process_all ex_script ex_cwd ex_fs (sent (ex_loaded ex_inputs)) =
               ([Some ex_b1, None, Some ex_b3], es, F, None)"
    by (simp add: ex_defs eval_defs)
  then obtain es F where pa: "process_all ex_script ex_cwd ex_fs (sent (ex_loaded ex_inputs)) =
                               ([Some ex_b1, None, Some ex_b3], es, F, None)"
    by blast
  from r c pa pipeline_upload_receives_all [OF r c pa] show ?thesis by blast
qed


theorem run_log_spec_witness:
  "logger (run_on ex_script ex_fs ex_cwd ex_inputs) =
     [Log_info ''Waiting for next batch to process'', Log_info ''Got batch at folder /tmp/b1'',
      Log_info ''Running script on /tmp/b1'', Log_info ''Finished running script on /tmp/b1, removing input'',
      Log_info ''Waiting for next batch to process'', Log_info ''Got batch at folder /tmp/b2'',
      Log_info ''Running script on /tmp/b2'', Log_error (failure_record ex_b2 (Exc ''ValueError('bad input')'')),
      Log_info ''Waiting for next batch to process'', Log_info ''Got batch at folder /tmp//b3/'',
      Log_info ''Running script on /tmp/b3'', Log_info ''Finished running script on /tmp/b3, removing input'',
      Log_info ''Waiting for next batch to process'', Log_info ''Processing thread done'']"
  unfolding run_log_spec [where sc = ex_script and f = ex_fs and d = ex_cwd and xs = ex_inputs]
  by (simp add: ex_defs eval_defs)

theorem pipeline_logged_errors_witness:
  "reach (pipe_init ex_script ex_fs ex_cwd) ex_shared \<and>
   logged_errors (logger (proc ex_shared)) = proc_errors ex_shared \<and>
   proc_errors ex_shared = [failure_record ex_b2 (Exc ''ValueError('bad input')'')]"
proof -
  have r: "reach (pipe_init ex_script ex_fs ex_cwd) ex_shared" by (rule ex_shared_reach)
  have "logged_errors (logger (proc ex_shared)) = [failure_record ex_b2 (Exc ''ValueError('bad input')'')]"
    by (simp add: ex_defs eval_defs)
  with r pipeline_logged_errors [OF r] show ?thesis by simp
qed

end
